theory Spec2Isabelle
  imports Complex_Main
begin

section \<open>Beat scheduler (src/audio/metronome.ts)\<close>

text \<open>
  JavaScript numbers are modelled as follows: counters and lengths, which the module only
  ever sets to non-negative integers, are \<^typ>\<open>nat\<close>; arguments of type \<open>number\<close>
  that reach the module from outside are finite reals (\<^typ>\<open>real\<close>), so \<open>Math.floor\<close>
  is \<^const>\<open>floor\<close>; \<open>NaN\<close> and the infinities are outside the model, except that the
  remainder by zero, which JavaScript evaluates to \<open>NaN\<close>, is written out as \<^const>\<open>None\<close>.
\<close>

datatype ctx_state = Suspended | Running | Closed

text \<open>
  \<open>ensureAudioStarted\<close> (the audio module, lines 131-137): when the context is not
  running it awaits \<open>Tone.start()\<close> and swallows a rejection. The function has no
  \<open>return\<close> statement, so its promise resolves to \<open>undefined\<close>, modelled as
  \<^const>\<open>None\<close> of type \<^typ>\<open>bool option\<close>. The second argument says whether
  \<open>Tone.start()\<close> succeeds in unlocking the context.
\<close>

definition ensureAudioStarted :: "ctx_state \<Rightarrow> bool \<Rightarrow> bool option \<times> ctx_state" where
  "ensureAudioStarted ctx unlock_ok =
     (if ctx \<noteq> Running
      then (None, if unlock_ok then Running else ctx)
      else (None, ctx))"

text \<open>JavaScript truthiness of a value that is \<open>undefined\<close> or a boolean.\<close>

fun truthy :: "bool option \<Rightarrow> bool" where
  "truthy None = False"
| "truthy (Some b) = b"

datatype click = ClickHigh real | ClickLow real

record Metronome =
  initialized :: bool
  subscribed :: bool
  beatsPerBar :: nat
  bpm :: int
  isRunning :: bool
  currentBeat :: nat
  currentBar :: nat
  accents :: "bool list"
  volumes :: "real list"
  loopStarted :: bool
  transportStarted :: bool

text \<open>The module's initial state (lines 6-22).\<close>

definition metronome_init :: Metronome where
  "metronome_init =
     \<lparr> initialized = False, subscribed = False, beatsPerBar = 4, bpm = 100,
       isRunning = False, currentBeat = 0, currentBar = 0,
       accents = (replicate 4 False)[0 := True], volumes = replicate 4 1,
       loopStarted = False, transportStarted = False \<rparr>"

text \<open>\<open>a % b\<close> on non-negative integers; \<open>a % 0\<close> is \<open>NaN\<close>.\<close>

definition js_rem :: "nat \<Rightarrow> nat \<Rightarrow> nat option" where
  "js_rem a b = (if b = 0 then None else Some (a mod b))"

text \<open>\<open>xs[i]\<close> where the index may be \<open>NaN\<close> or out of range: \<open>undefined\<close> is \<^const>\<open>None\<close>.\<close>

definition js_index :: "'a list \<Rightarrow> nat option \<Rightarrow> 'a option" where
  "js_index xs i =
     (case i of None \<Rightarrow> None
      | Some j \<Rightarrow> if j < length xs then Some (xs ! j) else None)"

text \<open>
  What one run of the loop callback does to the outside: the click it renders and the
  arguments it passes to the subscriber, if one is registered (\<open>sub?.(beatInBar, currentBar)\<close>).
\<close>

record tick_out =
  rendered :: click
  notified :: "(nat option \<times> nat) option"

text \<open>The loop callback of \<open>init\<close> (lines 31-44).\<close>

definition tick :: "Metronome \<Rightarrow> tick_out \<times> Metronome" where
  "tick st =
     (let beatInBar = js_rem (currentBeat st) (beatsPerBar st);
          vol = max 0 (min 1 (case js_index (volumes st) beatInBar of None \<Rightarrow> 1 | Some v \<Rightarrow> v));
          c = (if js_index (accents st) beatInBar = Some True
               then ClickHigh (0.9 * vol) else ClickLow (0.6 * vol));
          bar = (if beatInBar = Some 0 then currentBar st + 1 else currentBar st)
      in (\<lparr> rendered = c,
            notified = (if subscribed st then Some (beatInBar, bar) else None) \<rparr>,
          st\<lparr> currentBar := bar, currentBeat := currentBeat st + 1 \<rparr>))"

text \<open>Running the callback \<open>n\<close> times, collecting what each run did.\<close>

fun run_ticks :: "nat \<Rightarrow> Metronome \<Rightarrow> tick_out list \<times> Metronome" where
  "run_ticks 0 st = ([], st)"
| "run_ticks (Suc n) st =
     (let (out, st1) = tick st; (outs, st2) = run_ticks n st1 in (out # outs, st2))"

definition notifications :: "tick_out list \<Rightarrow> (nat option \<times> nat) list" where
  "notifications outs = List.map_filter notified outs"

text \<open>\<open>init\<close> (lines 24-46): creates the click voices and the loop once.\<close>

definition init :: "Metronome \<Rightarrow> Metronome" where
  "init st = (if initialized st then st else st\<lparr> initialized := True \<rparr>)"

text \<open>
  \<open>start\<close> (lines 48-59). The \<open>try\<close> block returns when the awaited result of
  \<open>ensureAudioStarted\<close> is falsy; otherwise the scheduler is initialised, the counters are
  reset, and the loop and the transport are started. The \<open>catch\<close> clause is never
  entered, since \<open>ensureAudioStarted\<close> swallows the rejection of \<open>Tone.start()\<close> itself.
\<close>

definition start :: "ctx_state \<Rightarrow> bool \<Rightarrow> Metronome \<Rightarrow> Metronome \<times> ctx_state" where
  "start ctx unlock_ok st =
     (let (ready, ctx1) = ensureAudioStarted ctx unlock_ok
      in if \<not> truthy ready then (st, ctx1)
         else ((init st)\<lparr> currentBeat := 0, currentBar := 0, loopStarted := True,
                          transportStarted := True, isRunning := True \<rparr>, ctx1))"

text \<open>\<open>stop\<close> (lines 61-66).\<close>

definition stop :: "Metronome \<Rightarrow> Metronome" where
  "stop st =
     (if \<not> initialized st then st
      else st\<lparr> loopStarted := False, transportStarted := False, isRunning := False \<rparr>)"

text \<open>
  The copying loop of \<open>setBeatsPerBar\<close>:
  \<open>for (let i = 0; i < Math.min(old.length, n); i++) fresh[i] = old[i]\<close>.
\<close>

definition copy_prefix :: "'a list \<Rightarrow> nat \<Rightarrow> 'a list \<Rightarrow> 'a list" where
  "copy_prefix old n fresh = fold (\<lambda>i acc. acc[i := old ! i]) [0..<min (length old) n] fresh"

text \<open>\<open>setBeatsPerBar\<close> (lines 77-88).\<close>

definition setBeatsPerBar :: "real \<Rightarrow> Metronome \<Rightarrow> Metronome" where
  "setBeatsPerBar next st =
     (let n = nat (max 1 (min 12 \<lfloor>next\<rfloor>))
      in st\<lparr> beatsPerBar := n,
              accents := copy_prefix (accents st) n (replicate n False),
              volumes := copy_prefix (volumes st) n (replicate n 1) \<rparr>)"

text \<open>\<open>onTick\<close> (lines 90-92): one subscriber, replaced by each call.\<close>

definition onTick :: "bool \<Rightarrow> Metronome \<Rightarrow> Metronome" where
  "onTick has_fn st = st\<lparr> subscribed := has_fn \<rparr>"


text \<open>
  Number of ticks with beat-in-bar 0 among the first \<open>b\<close> ticks after a reset
  (used to state what the bar counter holds between ticks).
\<close>

definition laps :: "nat \<Rightarrow> nat \<Rightarrow> nat" where
  "laps bpb b = (b + bpb - 1) div bpb"

section \<open>Trigger engine (the audio module that exports \<open>triggerPad\<close>)\<close>

datatype DrumPad =
  Kick | Snare | Stick | HiHatClosed | HiHatOpen | HiHatPedal
  | Crash | Ride | TomHigh | TomMid | TomFloor

text \<open>The sample set's note names; \<open>Fs2\<close> stands for \<open>F#2\<close>, and so on.\<close>

datatype NoteName = C2 | D2 | Ds2 | Fs2 | Gs2 | As2 | Cs3 | Cs4 | Ds3 | C3 | A2 | F2

text \<open>\<open>PAD_TO_MIDI\<close> (lines 55-67), with the values of \<open>MidiDrum\<close> (lines 35-47).\<close>

fun PAD_TO_MIDI :: "DrumPad \<Rightarrow> nat" where
  "PAD_TO_MIDI Kick = 36"
| "PAD_TO_MIDI Snare = 38"
| "PAD_TO_MIDI Stick = 37"
| "PAD_TO_MIDI HiHatClosed = 42"
| "PAD_TO_MIDI HiHatPedal = 44"
| "PAD_TO_MIDI HiHatOpen = 46"
| "PAD_TO_MIDI Crash = 49"
| "PAD_TO_MIDI Ride = 51"
| "PAD_TO_MIDI TomHigh = 48"
| "PAD_TO_MIDI TomMid = 45"
| "PAD_TO_MIDI TomFloor = 41"

text \<open>The pads in the order of \<open>listDrumPads\<close> (lines 320-335).\<close>

definition drumPads :: "DrumPad list" where
  "drumPads = [Kick, Snare, Stick, HiHatClosed, HiHatPedal, HiHatOpen, Crash, Ride,
               TomHigh, TomMid, TomFloor]"

text \<open>\<open>MIDI_TO_PAD\<close> (lines 69-71) and \<open>midiNoteToPad\<close> (lines 192-194).\<close>

definition MIDI_TO_PAD :: "(nat \<times> DrumPad) list" where
  "MIDI_TO_PAD = map (\<lambda>pad. (PAD_TO_MIDI pad, pad)) drumPads"

definition midiNoteToPad :: "nat \<Rightarrow> DrumPad option" where
  "midiNoteToPad noteNumber = map_of MIDI_TO_PAD noteNumber"

text \<open>\<open>BASIC_MAP_PAD\<close> (lines 74-84) has no entry for \<open>Crash\<close> and \<open>HiHatPedal\<close>.\<close>

fun BASIC_MAP_PAD :: "DrumPad \<Rightarrow> NoteName option" where
  "BASIC_MAP_PAD Kick = Some C2"
| "BASIC_MAP_PAD Snare = Some D2"
| "BASIC_MAP_PAD Stick = Some Ds2"
| "BASIC_MAP_PAD HiHatClosed = Some Fs2"
| "BASIC_MAP_PAD HiHatOpen = Some As2"
| "BASIC_MAP_PAD Ride = Some Ds3"
| "BASIC_MAP_PAD TomHigh = Some C3"
| "BASIC_MAP_PAD TomMid = Some A2"
| "BASIC_MAP_PAD TomFloor = Some F2"
| "BASIC_MAP_PAD Crash = None"
| "BASIC_MAP_PAD HiHatPedal = None"

text \<open>\<open>padToNoteName\<close> (lines 187-190).\<close>

definition padToNoteName :: "DrumPad \<Rightarrow> NoteName option" where
  "padToNoteName pad = (if pad = Crash then Some Cs3 else BASIC_MAP_PAD pad)"

text \<open>\<open>PAD_LABELS\<close> (lines 306-318).\<close>

fun PAD_LABELS :: "DrumPad \<Rightarrow> string" where
  "PAD_LABELS Kick = ''Kick''"
| "PAD_LABELS Snare = ''Snare''"
| "PAD_LABELS Stick = ''Stick''"
| "PAD_LABELS HiHatClosed = ''HH Close''"
| "PAD_LABELS HiHatPedal = ''HH Pedal''"
| "PAD_LABELS HiHatOpen = ''HH Open''"
| "PAD_LABELS Crash = ''Crash''"
| "PAD_LABELS Ride = ''Ride''"
| "PAD_LABELS TomHigh = ''Tom H''"
| "PAD_LABELS TomMid = ''Tom M''"
| "PAD_LABELS TomFloor = ''Tom F''"

text \<open>\<open>Voice\<close> and \<open>padToVoice\<close> (lines 277-304).\<close>

datatype Voice =
  kick | snare | hhClosed | hhOpen | hhPedal | crash | ride | tomHigh | tomMid | tomFloor

fun padToVoice :: "DrumPad \<Rightarrow> Voice" where
  "padToVoice Kick = kick"
| "padToVoice Snare = snare"
| "padToVoice HiHatOpen = hhOpen"
| "padToVoice HiHatClosed = hhClosed"
| "padToVoice HiHatPedal = hhPedal"
| "padToVoice Crash = crash"
| "padToVoice Ride = ride"
| "padToVoice TomHigh = tomHigh"
| "padToVoice TomMid = tomMid"
| "padToVoice TomFloor = tomFloor"
| "padToVoice Stick = snare"

text \<open>
  The calls the engine makes on the audio backend, in the order it makes them. The
  synthesised voices are the members of \<open>synthBus\<close> (lines 109-118).
\<close>

datatype BusVoice = bus_kick | bus_snare | bus_hat | bus_cym | bus_tomHigh | bus_tomMid | bus_tomFloor

datatype Duration = N2 | N8 | N16 | Seconds real

datatype AudioCmd =
    SamplerAttack NoteName real real
  | SamplerRelease NoteName real
  | BusSetDecay BusVoice real
  | BusAttackRelease BusVoice "real option" Duration real real
  | BusRelease BusVoice real

record Engine =
  ctx :: ctx_state
  loaded :: bool
  sampler :: bool
  useSynthFallback :: bool
  synthBus :: bool
  hiHatOpenLevel :: real
  cmds :: "AudioCmd list"

text \<open>Module state at load time (lines 106-121).\<close>

definition engine_init :: Engine where
  "engine_init =
     \<lparr> ctx = Suspended, loaded = False, sampler = False, useSynthFallback = False,
       synthBus = False, hiHatOpenLevel = 0, cmds = [] \<rparr>"

definition HH_OPEN_DEFAULT :: real where "HH_OPEN_DEFAULT = 0.9"
definition HH_CLOSED_RELEASE :: real where "HH_CLOSED_RELEASE = 0.16"
definition HH_PEDAL_RELEASE :: real where "HH_PEDAL_RELEASE = 0.10"

text \<open>\<open>setHiHatOpenByCC4\<close> (lines 122-124).\<close>

definition setHiHatOpenByCC4 :: "real \<Rightarrow> Engine \<Rightarrow> Engine" where
  "setHiHatOpenByCC4 v st = st\<lparr> hiHatOpenLevel := max 0 (min 1 (v / 127)) \<rparr>"

text \<open>\<open>ensureSynth\<close> (lines 139-154) and \<open>isUsingFallback\<close> (lines 156-158).\<close>

definition ensureSynth :: "Engine \<Rightarrow> Engine" where
  "ensureSynth st = (if synthBus st then st else st\<lparr> synthBus := True \<rparr>)"

definition isUsingFallback :: "Engine \<Rightarrow> bool" where
  "isUsingFallback st = useSynthFallback st"

text \<open>
  How the one attempt to load the sample set ends: the sampler's \<open>onload\<close> fires, its
  \<open>onerror\<close> fires, or the constructor itself throws.
\<close>

datatype LoadOutcome = LoadOk | LoadError | ConstructError

text \<open>
  \<open>getDrumSampler\<close> (lines 160-185), with the memoised promise awaited to its end. Only
  the first call in sampled mode creates the promise; its \<open>catch\<close> handler is the one
  place that assigns \<open>useSynthFallback\<close>. \<open>configureLowLatencyTone\<close> only sets the latency
  of the audio context and is left out.
\<close>

definition getDrumSampler :: "LoadOutcome \<Rightarrow> Engine \<Rightarrow> Engine" where
  "getDrumSampler outcome st =
     (if useSynthFallback st then ensureSynth st
      else if \<not> loaded st then
        (case outcome of
           LoadOk \<Rightarrow> st\<lparr> loaded := True, sampler := True \<rparr>
         | LoadError \<Rightarrow> ensureSynth (st\<lparr> loaded := True, sampler := True, useSynthFallback := True \<rparr>)
         | ConstructError \<Rightarrow> ensureSynth (st\<lparr> loaded := True, useSynthFallback := True \<rparr>))
      else st)"

definition emit :: "AudioCmd list \<Rightarrow> Engine \<Rightarrow> Engine" where
  "emit cs st = st\<lparr> cmds := cmds st @ cs \<rparr>"

text \<open>\<open>chokeOpenHiHat\<close> (lines 337-350) and \<open>chokeHiHatAll\<close> (lines 352-367).\<close>

definition chokeOpenHiHat :: "real \<Rightarrow> Engine \<Rightarrow> Engine" where
  "chokeOpenHiHat now st =
     (if useSynthFallback st then emit [BusRelease bus_hat now] (ensureSynth st)
      else if sampler st then emit [SamplerRelease As2 now] st
      else st)"

definition chokeHiHatAll :: "real \<Rightarrow> Engine \<Rightarrow> Engine" where
  "chokeHiHatAll now st =
     (if useSynthFallback st then emit [BusRelease bus_hat now] (ensureSynth st)
      else if sampler st then emit [SamplerRelease As2 now, SamplerRelease Fs2 now] st
      else st)"

text \<open>
  A call either returns or throws; in both cases it leaves a state behind. The only throw
  modelled is the \<open>TypeError\<close> of \<open>sampler!.triggerAttack\<close> on a \<open>null\<close> sampler.
\<close>

datatype 'a outcome = Returned 'a | Thrown 'a

fun state_of :: "'a outcome \<Rightarrow> 'a" where
  "state_of (Returned st) = st"
| "state_of (Thrown st) = st"

text \<open>The \<open>switch\<close> of the synthesised branch of \<open>triggerPad\<close> (lines 208-245).\<close>

fun synthCmds :: "Voice \<Rightarrow> real \<Rightarrow> real \<Rightarrow> AudioCmd list" where
  "synthCmds kick now vel = [BusAttackRelease bus_kick (Some 50) N8 now vel]"
| "synthCmds snare now vel = [BusAttackRelease bus_snare None N16 now vel]"
| "synthCmds hhOpen now vel =
     [BusSetDecay bus_hat HH_OPEN_DEFAULT,
      BusAttackRelease bus_hat None (Seconds HH_OPEN_DEFAULT) now (0.5 + vel * 0.5)]"
| "synthCmds hhClosed now vel =
     [BusSetDecay bus_hat HH_CLOSED_RELEASE,
      BusAttackRelease bus_hat None (Seconds HH_CLOSED_RELEASE) now (0.4 + vel * 0.6)]"
| "synthCmds hhPedal now vel =
     [BusSetDecay bus_hat HH_CLOSED_RELEASE,
      BusAttackRelease bus_hat None (Seconds HH_CLOSED_RELEASE) now (0.4 + vel * 0.6)]"
| "synthCmds crash now vel =
     [BusSetDecay bus_cym 1.6, BusAttackRelease bus_cym None N2 now (0.4 + vel * 0.6)]"
| "synthCmds ride now vel =
     [BusSetDecay bus_cym 0.6, BusAttackRelease bus_cym None N8 now (0.4 + vel * 0.6)]"
| "synthCmds tomHigh now vel = [BusAttackRelease bus_tomHigh (Some 220) N8 now vel]"
| "synthCmds tomMid now vel = [BusAttackRelease bus_tomMid (Some 180) N8 now vel]"
| "synthCmds tomFloor now vel = [BusAttackRelease bus_tomFloor (Some 140) N8 now vel]"

text \<open>
  \<open>triggerPad\<close> (lines 196-268). \<open>unlock_ok\<close> and \<open>load\<close> are how the two awaited calls
  end, \<open>now\<close> is the value of \<open>Tone.immediate()\<close> during the call.
\<close>

definition triggerPad ::
  "bool \<Rightarrow> LoadOutcome \<Rightarrow> real \<Rightarrow> DrumPad \<Rightarrow> real \<Rightarrow> Engine \<Rightarrow> Engine outcome" where
  "triggerPad unlock_ok load now pad velocity st =
     (let vel = max 0 (min 1 (velocity / 127));
          st1 = st\<lparr> ctx := snd (ensureAudioStarted (ctx st) unlock_ok) \<rparr>;
          st2 = getDrumSampler load st1;
          st3 = (if pad = HiHatClosed \<or> pad = HiHatOpen \<or> pad = HiHatPedal
                 then chokeHiHatAll now st2 else st2)
      in if useSynthFallback st3
         then Returned (emit (synthCmds (padToVoice pad) now vel) (ensureSynth st3))
         else if \<not> sampler st3 then Thrown st3
         else if pad = HiHatClosed
         then Returned (emit [SamplerAttack Fs2 now vel,
                              SamplerRelease Fs2 (now + HH_CLOSED_RELEASE)] st3)
         else if pad = HiHatOpen
         then Returned (emit [SamplerAttack As2 now vel] st3)
         else if pad = HiHatPedal
         then Returned (emit [SamplerAttack Gs2 now vel,
                              SamplerRelease Gs2 (now + HH_CLOSED_RELEASE)] st3)
         else (case padToNoteName pad of
                 None \<Rightarrow> Thrown st3
               | Some noteName \<Rightarrow> Returned (emit [SamplerAttack noteName now vel] st3)))"

text \<open>\<open>triggerMidi\<close> (lines 271-275).\<close>

definition triggerMidi ::
  "bool \<Rightarrow> LoadOutcome \<Rightarrow> real \<Rightarrow> nat \<Rightarrow> real \<Rightarrow> Engine \<Rightarrow> Engine outcome" where
  "triggerMidi unlock_ok load now noteNumber velocity st =
     (case midiNoteToPad noteNumber of
        None \<Rightarrow> Returned st
      | Some pad \<Rightarrow> triggerPad unlock_ok load now pad velocity st)"

text \<open>The exported operations of the module, as one step function.\<close>

datatype EngineOp =
    OpEnsureAudioStarted bool
  | OpGetDrumSampler LoadOutcome
  | OpIsUsingFallback
  | OpSetHiHatOpenByCC4 real
  | OpTriggerPad bool LoadOutcome real DrumPad real
  | OpTriggerMidi bool LoadOutcome real nat real

fun apply_op :: "EngineOp \<Rightarrow> Engine \<Rightarrow> Engine" where
  "apply_op (OpEnsureAudioStarted ok) st = st\<lparr> ctx := snd (ensureAudioStarted (ctx st) ok) \<rparr>"
| "apply_op (OpGetDrumSampler load) st = getDrumSampler load st"
| "apply_op OpIsUsingFallback st = st"
| "apply_op (OpSetHiHatOpenByCC4 v) st = setHiHatOpenByCC4 v st"
| "apply_op (OpTriggerPad ok load now pad velocity) st =
     state_of (triggerPad ok load now pad velocity st)"
| "apply_op (OpTriggerMidi ok load now n velocity) st =
     state_of (triggerMidi ok load now n velocity st)"

definition run_ops :: "EngineOp list \<Rightarrow> Engine \<Rightarrow> Engine" where
  "run_ops ops st = fold apply_op ops st"

text \<open>
  The commands a call added to the log, and the notes and voices released by the
  commands that precede the first attack among them.
\<close>

definition new_cmds :: "Engine \<Rightarrow> Engine \<Rightarrow> AudioCmd list" where
  "new_cmds before after = drop (length (cmds before)) (cmds after)"

fun is_attack :: "AudioCmd \<Rightarrow> bool" where
  "is_attack (SamplerAttack n t v) = True"
| "is_attack (BusAttackRelease b f d t v) = True"
| "is_attack c = False"

definition before_attack :: "AudioCmd list \<Rightarrow> AudioCmd list" where
  "before_attack cs = takeWhile (\<lambda>c. \<not> is_attack c) cs"

text \<open>
  The sound source a hi-hat pad's hit rings on: the sample note it attacks in sampled
  mode, the shared metal voice in fallback mode. Read off \<open>triggerPad\<close>.
\<close>

datatype Source = SampleNote NoteName | Bus BusVoice

fun attacked :: "AudioCmd \<Rightarrow> Source option" where
  "attacked (SamplerAttack n t v) = Some (SampleNote n)"
| "attacked (BusAttackRelease b f d t v) = Some (Bus b)"
| "attacked c = None"

fun released_at :: "real \<Rightarrow> AudioCmd \<Rightarrow> Source option" where
  "released_at now (SamplerRelease n t) = (if t = now then Some (SampleNote n) else None)"
| "released_at now (BusRelease b t) = (if t = now then Some (Bus b) else None)"
| "released_at now c = None"

text \<open>
  \<open>chokes now first second\<close>: every source attacked by the commands \<open>first\<close> is released
  at time \<open>now\<close> by a command of \<open>second\<close> that precedes the first attack of \<open>second\<close>.
\<close>

definition chokes :: "real \<Rightarrow> AudioCmd list \<Rightarrow> AudioCmd list \<Rightarrow> bool" where
  "chokes now first second =
     (set (List.map_filter attacked first)
        \<subseteq> set (List.map_filter (released_at now) (before_attack second)))"

text \<open>
  What the sampled branch of \<open>triggerPad\<close> (lines 249-265) sends for a hi-hat pad after
  the choke.
\<close>

fun hatSampleCmds :: "DrumPad \<Rightarrow> real \<Rightarrow> real \<Rightarrow> AudioCmd list" where
  "hatSampleCmds HiHatClosed now vel =
     [SamplerAttack Fs2 now vel, SamplerRelease Fs2 (now + HH_CLOSED_RELEASE)]"
| "hatSampleCmds HiHatOpen now vel = [SamplerAttack As2 now vel]"
| "hatSampleCmds HiHatPedal now vel =
     [SamplerAttack Gs2 now vel, SamplerRelease Gs2 (now + HH_CLOSED_RELEASE)]"
| "hatSampleCmds pad now vel = []"

section \<open>Binding resolver (src/components/MidiSampler.tsx)\<close>

text \<open>
  MIDI note numbers, controller numbers, values and velocities are data bytes of the
  transport, modelled as \<^typ>\<open>nat\<close>. A key identifier is the string
  \<open>e.key.toLowerCase()\<close>.

  \<open>PadBindings\<close> is a JavaScript object whose property names are target note numbers.
  It is modelled as the list of its entries in the order \<open>Object.entries\<close> yields them,
  which for such property names is ascending numeric order; \<open>obj_put\<close> is the object
  spread \<open>{ ...tbl, [k]: v }\<close> and \<open>fromEntries\<close> is \<open>Object.fromEntries\<close>.
\<close>

record PadBinding =
  keys :: "string list"
  midis :: "nat list"
  ccs :: "nat list"

record PartialPadBinding =
  keys_opt :: "string list option"
  midis_opt :: "nat list option"
  ccs_opt :: "nat list option"

type_synonym PadBindings = "(nat \<times> PadBinding) list"

fun obj_put :: "nat \<Rightarrow> 'v \<Rightarrow> (nat \<times> 'v) list \<Rightarrow> (nat \<times> 'v) list" where
  "obj_put k v [] = [(k, v)]"
| "obj_put k v ((k', v') # rest) =
     (if k = k' then (k, v) # rest
      else if k < k' then (k, v) # (k', v') # rest
      else (k', v') # obj_put k v rest)"

definition fromEntries :: "(nat \<times> 'v) list \<Rightarrow> (nat \<times> 'v) list" where
  "fromEntries es = fold (\<lambda>(k, v) acc. obj_put k v acc) es []"

definition is_object :: "(nat \<times> 'v) list \<Rightarrow> bool" where
  "is_object tbl = sorted_wrt (<) (map fst tbl)"

text \<open>\<open>normalizeBinding\<close> (lines 31-37): \<open>binding?.field ?? []\<close> for each field.\<close>

definition normalizeBinding :: "PartialPadBinding option \<Rightarrow> PadBinding" where
  "normalizeBinding binding =
     \<lparr> keys = (case Option.bind binding keys_opt of None \<Rightarrow> [] | Some ks \<Rightarrow> ks),
       midis = (case Option.bind binding midis_opt of None \<Rightarrow> [] | Some ms \<Rightarrow> ms),
       ccs = (case Option.bind binding ccs_opt of None \<Rightarrow> [] | Some cs \<Rightarrow> cs) \<rparr>"

text \<open>A complete binding read at the type \<open>Partial<PadBinding>\<close>.\<close>

definition as_partial :: "PadBinding \<Rightarrow> PartialPadBinding" where
  "as_partial b = \<lparr> keys_opt = Some (keys b), midis_opt = Some (midis b), ccs_opt = Some (ccs b) \<rparr>"

text \<open>\<open>normalizeBinding(tbl[t])\<close>.\<close>

definition binding_of :: "PadBindings \<Rightarrow> nat \<Rightarrow> PadBinding" where
  "binding_of tbl t = normalizeBinding (map_option as_partial (map_of tbl t))"

text \<open>
  The content of a \<open>localStorage\<close> item as the load path sees it: absent, the empty
  string, a text that \<open>JSON.parse\<close> rejects, or a text that parses to a value of the type
  the code casts it to. \<open>JSON.parse\<close> is taken to invert \<open>JSON.stringify\<close> on objects
  made of strings, integers, arrays and objects; \<open>to_stored\<close> is that value for a table.
\<close>

datatype 'a StoredItem = NoItem | EmptyText | Malformed | Json 'a

type_synonym StoredBindings = "(nat \<times> PartialPadBinding option) list"
type_synonym StoredKeymap = "(nat \<times> string list option) list"

definition to_stored :: "PadBindings \<Rightarrow> StoredBindings" where
  "to_stored tbl = map (\<lambda>(t, b). (t, Some (as_partial b))) tbl"

text \<open>The initialiser of the \<open>bindings\<close> state (lines 254-278).\<close>

definition loadBindings :: "StoredBindings StoredItem \<Rightarrow> StoredKeymap StoredItem \<Rightarrow> PadBindings" where
  "loadBindings raw legacy =
     (case raw of
        Json parsed \<Rightarrow> fromEntries (map (\<lambda>(m, b). (m, normalizeBinding b)) parsed)
      | _ \<Rightarrow>
        (case legacy of
           Json parsed \<Rightarrow>
             fromEntries (map (\<lambda>(m, ks). (m, \<lparr> keys = (case ks of None \<Rightarrow> [] | Some k \<Rightarrow> k),
                                                midis = [], ccs = [] \<rparr>)) parsed)
         | _ \<Rightarrow> []))"

text \<open>\<open>midiToLabel\<close> (line 230) and \<open>midiToLabel[t] || 'another sound'\<close>.\<close>

definition midiToLabel :: "(nat \<times> string) list" where
  "midiToLabel = map (\<lambda>pad. (PAD_TO_MIDI pad, PAD_LABELS pad)) drumPads"

definition label_or_other :: "nat \<Rightarrow> string" where
  "label_or_other t =
     (case map_of midiToLabel t of
        None \<Rightarrow> ''another sound''
      | Some l \<Rightarrow> if l = [] then ''another sound'' else l)"

text \<open>\<open>defaultMidiSetRef\<close> (lines 280-282).\<close>

definition defaultMidiSet :: "nat list" where
  "defaultMidiSet = map PAD_TO_MIDI drumPads"

definition CC_TRIGGER_THRESHOLD :: nat where "CC_TRIGGER_THRESHOLD = 64"
definition FootController :: nat where "FootController = 4"

text \<open>Calls the component makes on the trigger engine and on the pad display.\<close>

datatype Fx = Flash DrumPad | CallTriggerMidi nat nat | CallSetHiHatOpenByCC4 nat

text \<open>
  The component's state. \<open>keydownListeners\<close> holds the one-shot \<open>keydown\<close> listeners
  registered on \<open>window\<close> and not yet fired, each with the values of \<open>modalForMidi\<close> and
  \<open>bindings\<close> its closure captured. \<open>bindingsRef.current\<close> is kept equal to \<open>bindings\<close>
  (every event is handled after the previous render has finished).
\<close>

record Resolver =
  bindings :: PadBindings
  store :: "StoredBindings StoredItem"
  selectedId :: "string option"
  audioReady :: bool
  modalForMidi :: "nat option"
  listenKeyForMidi :: "nat option"
  listenMidiForMidi :: "nat option"
  listenCcForMidi :: "nat option"
  conflictKey :: "string option"
  conflictMidi :: "(nat \<times> string) option"
  conflictCc :: "(nat \<times> string) option"
  keydownListeners :: "(nat \<times> PadBindings) list"
  ccDown :: "nat \<Rightarrow> bool"
  fx :: "Fx list"

definition resolver_init :: "StoredBindings StoredItem \<Rightarrow> StoredKeymap StoredItem \<Rightarrow> Resolver" where
  "resolver_init raw legacy =
     \<lparr> bindings = loadBindings raw legacy, store = raw, selectedId = None, audioReady = False,
       modalForMidi = None, listenKeyForMidi = None, listenMidiForMidi = None,
       listenCcForMidi = None, conflictKey = None, conflictMidi = None, conflictCc = None,
       keydownListeners = [], ccDown = (\<lambda>cc. False), fx = [] \<rparr>"

text \<open>
  \<open>persistBindings\<close> (lines 292-296); the same write is made by the updaters of the two
  MIDI capture handlers (lines 128 and 178). The store is taken to accept the write.
\<close>

definition persistBindings :: "PadBindings \<Rightarrow> Resolver \<Rightarrow> Resolver" where
  "persistBindings next st = st\<lparr> bindings := next, store := Json (to_stored next) \<rparr>"

text \<open>
  The owner search of the two MIDI capture handlers (lines 103-110 and 160-167): the
  first entry of another target that holds the value.
\<close>

definition find_owner :: "(PadBinding \<Rightarrow> 'a list) \<Rightarrow> nat \<Rightarrow> 'a \<Rightarrow> PadBindings \<Rightarrow> nat option" where
  "find_owner field t x tbl =
     map_option fst (find (\<lambda>(m, b). m \<noteq> t \<and> x \<in> set (field b)) tbl)"

text \<open>\<open>getResolvedIncomingMidi\<close> (lines 136-143) and \<open>getResolvedIncomingCc\<close> (lines 186-191).\<close>

definition getResolvedIncomingMidi :: "PadBindings \<Rightarrow> nat \<Rightarrow> nat" where
  "getResolvedIncomingMidi tbl incoming =
     (if incoming \<in> set defaultMidiSet then incoming
      else (case find (\<lambda>(m, b). incoming \<in> set (midis b)) tbl of
              Some (m, b) \<Rightarrow> m
            | None \<Rightarrow> incoming))"

definition getResolvedIncomingCc :: "PadBindings \<Rightarrow> nat \<Rightarrow> nat option" where
  "getResolvedIncomingCc tbl incoming =
     map_option fst (find (\<lambda>(m, b). incoming \<in> set (ccs b)) tbl)"

definition flash :: "nat \<Rightarrow> Resolver \<Rightarrow> Resolver" where
  "flash resolved st =
     (case midiNoteToPad resolved of
        None \<Rightarrow> st
      | Some pad \<Rightarrow> st\<lparr> fx := fx st @ [Flash pad] \<rparr>)"

text \<open>Truthiness of \<open>ownerLabel\<close>, a string or \<open>null\<close> (lines 116 and 168).\<close>

definition truthy_label :: "string option \<Rightarrow> bool" where
  "truthy_label l = (l \<noteq> None \<and> l \<noteq> Some [])"

text \<open>
  The note listener (lines 97-154), for a note message \<open>(note, vel)\<close>, in four parts: the
  owner search with the default-note reservation (lines 103-115), the updater passed to
  \<open>setBindings\<close> (lines 121-132), the capture branch as a whole (lines 101-135) and the
  normal branch (lines 136-153). The display-only \<open>setLast\<close> is left out.
\<close>

definition midiOwnerLabel :: "nat \<Rightarrow> nat \<Rightarrow> PadBindings \<Rightarrow> string option" where
  "midiOwnerLabel t note tbl =
     (let found = map_option label_or_other (find_owner midis t note tbl);
          isDefaultMidi = (note \<in> set defaultMidiSet \<and> note \<noteq> t)
      in if isDefaultMidi \<and> \<not> truthy_label found then Some (label_or_other note) else found)"

definition commitMidi :: "nat \<Rightarrow> nat \<Rightarrow> Resolver \<Rightarrow> Resolver" where
  "commitMidi t note st =
     (let cur = binding_of (bindings st) t
      in if note = t then st
         else if note \<notin> set (midis cur)
         then persistBindings (obj_put t (cur\<lparr> midis := midis cur @ [note] \<rparr>) (bindings st)) st
         else st)"

definition captureMidi :: "nat \<Rightarrow> nat \<Rightarrow> Resolver \<Rightarrow> Resolver" where
  "captureMidi t note st =
     (case midiOwnerLabel t note (bindings st) of
        None \<Rightarrow> (commitMidi t note st)\<lparr> listenMidiForMidi := None \<rparr>
      | Some ownerLabel \<Rightarrow>
          if ownerLabel = [] then (commitMidi t note st)\<lparr> listenMidiForMidi := None \<rparr>
          else st\<lparr> conflictMidi := Some (note, ownerLabel), listenMidiForMidi := None \<rparr>)"

definition playNote :: "nat \<Rightarrow> nat \<Rightarrow> Resolver \<Rightarrow> Resolver" where
  "playNote note vel st =
     (let resolved = getResolvedIncomingMidi (bindings st) note;
          st1 = (if 0 < vel then flash resolved st else st)
      in if \<not> audioReady st1 then st1
         else if 0 < vel then st1\<lparr> fx := fx st1 @ [CallTriggerMidi resolved vel] \<rparr>
         else st1)"

definition midiNoteListener :: "nat \<Rightarrow> nat \<Rightarrow> Resolver \<Rightarrow> Resolver" where
  "midiNoteListener note vel st =
     (case listenMidiForMidi st of
        None \<Rightarrow> playNote note vel st
      | Some t \<Rightarrow> if 0 < vel then captureMidi t note st else playNote note vel st)"

text \<open>
  The controller listener (lines 156-204), for a controller message \<open>(cc, val)\<close>, in the
  same parts: the updater (lines 173-182), the capture branch (lines 159-185), the normal
  branch with the edge detection (lines 186-203), preceded by the forwarding of the foot
  controller's value to the engine (line 158).
\<close>

definition commitCc :: "nat \<Rightarrow> nat \<Rightarrow> Resolver \<Rightarrow> Resolver" where
  "commitCc t cc st =
     (let cur = binding_of (bindings st) t
      in if cc \<notin> set (ccs cur)
         then persistBindings (obj_put t (cur\<lparr> ccs := ccs cur @ [cc] \<rparr>) (bindings st)) st
         else st)"

definition captureCc :: "nat \<Rightarrow> nat \<Rightarrow> Resolver \<Rightarrow> Resolver" where
  "captureCc t cc st =
     (case map_option label_or_other (find_owner ccs t cc (bindings st)) of
        None \<Rightarrow> (commitCc t cc st)\<lparr> listenCcForMidi := None \<rparr>
      | Some ownerLabel \<Rightarrow>
          if ownerLabel = [] then (commitCc t cc st)\<lparr> listenCcForMidi := None \<rparr>
          else st\<lparr> conflictCc := Some (cc, ownerLabel), listenCcForMidi := None \<rparr>)"

definition playCc :: "nat \<Rightarrow> nat \<Rightarrow> Resolver \<Rightarrow> Resolver" where
  "playCc cc val st =
     (let resolved = getResolvedIncomingCc (bindings st) cc;
          isDown = (CC_TRIGGER_THRESHOLD \<le> val);
          wasDown = ccDown st cc;
          st1 = st\<lparr> ccDown := (ccDown st)(cc := isDown) \<rparr>
      in case resolved of
           None \<Rightarrow> st1
         | Some target \<Rightarrow>
             if \<not> isDown \<or> wasDown then st1
             else (let st2 = flash target st1
                   in if \<not> audioReady st2 then st2
                      else st2\<lparr> fx := fx st2 @ [CallTriggerMidi target (max 1 (min 127 val))] \<rparr>))"

definition hat_fx :: "nat \<Rightarrow> nat \<Rightarrow> Resolver \<Rightarrow> Resolver" where
  "hat_fx cc val st =
     (if cc = FootController then st\<lparr> fx := fx st @ [CallSetHiHatOpenByCC4 val] \<rparr> else st)"

definition ccListener :: "nat \<Rightarrow> nat \<Rightarrow> Resolver \<Rightarrow> Resolver" where
  "ccListener cc val st0 =
     (let st = hat_fx cc val st0
      in case listenCcForMidi st of
           None \<Rightarrow> playCc cc val st
         | Some t \<Rightarrow> if 0 < val then captureCc t cc st else playCc cc val st)"

text \<open>
  The one-shot \<open>keydown\<close> listener \<open>once\<close> (lines 463-478), with the target and the table
  its closure captured when the ``Add key binding'' button was clicked; \<open>k\<close> is
  \<open>e.key.toLowerCase()\<close>.
\<close>

definition once :: "nat \<times> PadBindings \<Rightarrow> string \<Rightarrow> Resolver \<Rightarrow> Resolver" where
  "once closure k st =
     (let modal = fst closure; tbl = snd closure;
          conflict = list_ex (\<lambda>(m, b). m \<noteq> modal \<and> k \<in> set (keys b)) tbl
      in if conflict then st\<lparr> conflictKey := Some k, listenKeyForMidi := None \<rparr>
         else (let cur = binding_of tbl modal;
                   st1 = (if k \<notin> set (keys cur)
                          then persistBindings (obj_put modal (cur\<lparr> keys := keys cur @ [k] \<rparr>) tbl) st
                          else st)
               in st1\<lparr> listenKeyForMidi := None \<rparr>))"

text \<open>A \<open>keydown\<close> event runs every registered listener once, in registration order.\<close>

definition keyDown :: "string \<Rightarrow> Resolver \<Rightarrow> Resolver" where
  "keyDown k st = fold (\<lambda>closure. once closure k) (keydownListeners st) (st\<lparr> keydownListeners := [] \<rparr>)"

text \<open>
  The three ``Add binding'' buttons (lines 456-480, 520-528, 571-579). They are rendered
  inside the modal only, so \<open>modalForMidi\<close> is set when they are clicked.
\<close>

definition clickAddKey :: "Resolver \<Rightarrow> Resolver" where
  "clickAddKey st =
     (case modalForMidi st of
        None \<Rightarrow> st
      | Some t \<Rightarrow>
          st\<lparr> listenMidiForMidi := None, listenCcForMidi := None, listenKeyForMidi := Some t,
              conflictKey := None, conflictMidi := None, conflictCc := None,
              keydownListeners := keydownListeners st @ [(t, bindings st)] \<rparr>)"

definition clickAddMidi :: "Resolver \<Rightarrow> Resolver" where
  "clickAddMidi st =
     (case modalForMidi st of
        None \<Rightarrow> st
      | Some t \<Rightarrow>
          if selectedId st = None then st
          else st\<lparr> listenKeyForMidi := None, listenCcForMidi := None,
                   conflictKey := None, conflictMidi := None, conflictCc := None,
                   listenMidiForMidi := Some t \<rparr>)"

definition clickAddCc :: "Resolver \<Rightarrow> Resolver" where
  "clickAddCc st =
     (case modalForMidi st of
        None \<Rightarrow> st
      | Some t \<Rightarrow>
          if selectedId st = None then st
          else st\<lparr> listenKeyForMidi := None, listenMidiForMidi := None,
                   listenCcForMidi := Some t,
                   conflictKey := None, conflictMidi := None, conflictCc := None \<rparr>)"

text \<open>
  The ``Remove'' buttons (lines 492-496, 543-547, 591-595); one is rendered for each
  value listed under the modal's target.
\<close>

definition removeKey :: "string \<Rightarrow> Resolver \<Rightarrow> Resolver" where
  "removeKey k st =
     (case modalForMidi st of
        None \<Rightarrow> st
      | Some t \<Rightarrow>
          (let cur = binding_of (bindings st) t
           in if k \<notin> set (keys cur) then st
              else persistBindings
                     (obj_put t (cur\<lparr> keys := filter (\<lambda>x. x \<noteq> k) (keys cur) \<rparr>) (bindings st)) st))"

definition removeMidi :: "nat \<Rightarrow> Resolver \<Rightarrow> Resolver" where
  "removeMidi n st =
     (case modalForMidi st of
        None \<Rightarrow> st
      | Some t \<Rightarrow>
          (let cur = binding_of (bindings st) t
           in if n \<notin> set (midis cur) then st
              else persistBindings
                     (obj_put t (cur\<lparr> midis := filter (\<lambda>x. x \<noteq> n) (midis cur) \<rparr>) (bindings st)) st))"

definition removeCc :: "nat \<Rightarrow> Resolver \<Rightarrow> Resolver" where
  "removeCc c st =
     (case modalForMidi st of
        None \<Rightarrow> st
      | Some t \<Rightarrow>
          (let cur = binding_of (bindings st) t
           in if c \<notin> set (ccs cur) then st
              else persistBindings
                     (obj_put t (cur\<lparr> ccs := filter (\<lambda>x. x \<noteq> c) (ccs cur) \<rparr>) (bindings st)) st))"

text \<open>``Reset bindings'', confirmed (lines 365-375).\<close>

definition resetBindings :: "Resolver \<Rightarrow> Resolver" where
  "resetBindings st =
     persistBindings []
       (st\<lparr> listenKeyForMidi := None, listenMidiForMidi := None, listenCcForMidi := None,
            conflictKey := None, conflictMidi := None, conflictCc := None \<rparr>)"

text \<open>Closing the modal (lines 438 and 628).\<close>

definition closeModal :: "Resolver \<Rightarrow> Resolver" where
  "closeModal st =
     st\<lparr> modalForMidi := None, listenKeyForMidi := None, listenMidiForMidi := None,
         listenCcForMidi := None, conflictKey := None, conflictMidi := None,
         conflictCc := None \<rparr>"

text \<open>\<open>handlePad\<close> in edit mode, not loading (lines 234-243): opens the modal for the pad.\<close>

definition handlePadEdit :: "DrumPad \<Rightarrow> Resolver \<Rightarrow> Resolver" where
  "handlePadEdit pad st =
     st\<lparr> modalForMidi := Some (PAD_TO_MIDI pad), conflictKey := None, conflictMidi := None,
         conflictCc := None \<rparr>"

text \<open>
  The effect that installs the MIDI listeners (lines 89-218) runs again, and empties
  \<open>ccDownRef\<close>, whenever \<open>selectedId\<close>, \<open>listenMidiForMidi\<close> or \<open>listenCcForMidi\<close> changed.
\<close>

definition midi_effect :: "Resolver \<Rightarrow> Resolver \<Rightarrow> Resolver" where
  "midi_effect before after =
     (if selectedId after = selectedId before
         \<and> listenMidiForMidi after = listenMidiForMidi before
         \<and> listenCcForMidi after = listenCcForMidi before
      then after else after\<lparr> ccDown := (\<lambda>cc. False) \<rparr>)"

datatype Event =
    TapPadEdit DrumPad
  | CloseModal
  | ClickAddKey
  | ClickAddMidi
  | ClickAddCc
  | KeyDown string
  | MidiNote nat nat
  | MidiCc nat nat
  | RemoveKey string
  | RemoveMidi nat
  | RemoveCc nat
  | ResetBindings
  | SelectDevice "string option"
  | AudioEnabled

fun handle :: "Event \<Rightarrow> Resolver \<Rightarrow> Resolver" where
  "handle (TapPadEdit pad) st = handlePadEdit pad st"
| "handle CloseModal st = closeModal st"
| "handle ClickAddKey st = clickAddKey st"
| "handle ClickAddMidi st = clickAddMidi st"
| "handle ClickAddCc st = clickAddCc st"
| "handle (KeyDown k) st = keyDown k st"
| "handle (MidiNote note vel) st = (if selectedId st = None then st else midiNoteListener note vel st)"
| "handle (MidiCc cc val) st = (if selectedId st = None then st else ccListener cc val st)"
| "handle (RemoveKey k) st = removeKey k st"
| "handle (RemoveMidi n) st = removeMidi n st"
| "handle (RemoveCc c) st = removeCc c st"
| "handle ResetBindings st = resetBindings st"
| "handle (SelectDevice d) st = st\<lparr> selectedId := d \<rparr>"
| "handle AudioEnabled st = st\<lparr> audioReady := True \<rparr>"

definition step :: "Event \<Rightarrow> Resolver \<Rightarrow> Resolver" where
  "step ev st = midi_effect st (handle ev st)"

definition run_events :: "Event list \<Rightarrow> Resolver \<Rightarrow> Resolver" where
  "run_events evs st = fold step evs st"

text \<open>
  The uniqueness invariant of the table: no key identifier, note number or controller
  number is listed under two different targets.
\<close>

definition disjoint_bindings :: "PadBinding \<Rightarrow> PadBinding \<Rightarrow> bool" where
  "disjoint_bindings a b =
     (set (keys a) \<inter> set (keys b) = {} \<and> set (midis a) \<inter> set (midis b) = {}
      \<and> set (ccs a) \<inter> set (ccs b) = {})"

definition unique_bindings :: "PadBindings \<Rightarrow> bool" where
  "unique_bindings tbl =
     (\<forall>(t1, b1) \<in> set tbl. \<forall>(t2, b2) \<in> set tbl. t1 \<noteq> t2 \<longrightarrow> disjoint_bindings b1 b2)"

text \<open>The \<open>CallTriggerMidi\<close> calls among a list of effects.\<close>

fun trigger_of :: "Fx \<Rightarrow> (nat \<times> nat) option" where
  "trigger_of (CallTriggerMidi target v) = Some (target, v)"
| "trigger_of e = None"

definition triggers :: "Resolver \<Rightarrow> (nat \<times> nat) list" where
  "triggers st = List.map_filter trigger_of (fx st)"

text \<open>Feeding a sequence of values of one controller to the controller listener.\<close>

definition feed_cc :: "nat \<Rightarrow> nat list \<Rightarrow> Resolver \<Rightarrow> Resolver" where
  "feed_cc cc vals st = fold (\<lambda>v. ccListener cc v) vals st"

text \<open>
  The invariant of the component's state: the table is unique, and so is every table
  captured by a \<open>keydown\<close> listener that has not fired yet.
\<close>

definition resolver_inv :: "Resolver \<Rightarrow> bool" where
  "resolver_inv st =
     (unique_bindings (bindings st)
      \<and> list_all (\<lambda>closure. unique_bindings (snd closure)) (keydownListeners st))"

text \<open>Concrete states and tables used to evaluate the handlers.\<close>

definition sample_table :: PadBindings where
  "sample_table =
     [(36, \<lparr> keys = [''a'', ''s''], midis = [60], ccs = [] \<rparr>),
      (42, \<lparr> keys = [''h''], midis = [], ccs = [20] \<rparr>)]"

definition fresh :: Resolver where
  "fresh = resolver_init NoItem NoItem"

text \<open>
  A stored table in which the snare (38) lists the kick's default note 36 as an extra
  note, and the events that select a device, open the modal of a pad, start a note
  capture and deliver a note-on of the kick's default note.
\<close>

definition stored_snare_kick :: "StoredBindings StoredItem" where
  "stored_snare_kick =
     Json [(38, Some \<lparr> keys_opt = Some [], midis_opt = Some [36], ccs_opt = Some [] \<rparr>)]"

definition capture_kick_note_for :: "DrumPad \<Rightarrow> Event list" where
  "capture_kick_note_for pad =
     [SelectDevice (Some ''in''), TapPadEdit pad, ClickAddMidi, MidiNote (PAD_TO_MIDI Kick) 100]"

text \<open>
  The events that select a device, bind controller 20 to the kick by a capture, close
  the modal and then deliver the given values of controller 20. Audio is never enabled.
\<close>

definition bind_cc_then_feed :: "nat list \<Rightarrow> Event list" where
  "bind_cc_then_feed vals =
     [SelectDevice (Some ''in''), TapPadEdit Kick, ClickAddCc, MidiCc 20 100, CloseModal]
       @ map (MidiCc 20) vals"

text \<open>Controller 20 bound to the kick, a device selected, audio not enabled.\<close>

definition audio_locked :: Resolver where
  "audio_locked =
     fresh\<lparr> bindings := [(36, \<lparr> keys = [], midis = [], ccs = [20] \<rparr>)],
            selectedId := Some ''in'' \<rparr>"

text \<open>
  The sampled engine after a successful load, after a pedal hi-hat hit at time 0, and
  after an open hi-hat hit 50 ms later.
\<close>

definition sampled_ready :: Engine where
  "sampled_ready = getDrumSampler LoadOk engine_init"

definition after_pedal :: Engine where
  "after_pedal = state_of (triggerPad True LoadOk 0 HiHatPedal 100 sampled_ready)"

definition after_open :: Engine where
  "after_open = state_of (triggerPad True LoadOk (1/20) HiHatOpen 100 after_pedal)"

text \<open>A device is selected and \<open>sample_table\<close> is the table; a run of events on it.\<close>

definition sample_state :: Resolver where
  "sample_state = fresh\<lparr> bindings := sample_table, selectedId := Some ''in'' \<rparr>"

definition sample_events :: "Event list" where
  "sample_events =
     [TapPadEdit HiHatClosed, ClickAddKey, KeyDown ''a'', ClickAddMidi, MidiNote 61 100,
      RemoveKey ''h'']"

text \<open>At most one of the three capture flags is set.\<close>

definition at_most_one_listening :: "Resolver \<Rightarrow> bool" where
  "at_most_one_listening st =
     ((listenKeyForMidi st = None \<and> listenMidiForMidi st = None)
      \<or> (listenKeyForMidi st = None \<and> listenCcForMidi st = None)
      \<or> (listenMidiForMidi st = None \<and> listenCcForMidi st = None))"

section \<open>The beat scheduler's counters\<close>

lemma laps_at0:
  assumes "0 < bpb" "b mod bpb = 0"
  shows "laps bpb b = b div bpb"
proof -
  from assms(2) have "bpb dvd b" by (simp add: dvd_eq_mod_eq_0)
  then obtain q where q: "b = bpb * q" by (rule dvdE)
  have "(bpb * q + bpb - 1) div bpb = q"
    using assms(1) by (intro div_nat_eqI) (auto simp: mult.commute)
  with q assms(1) show ?thesis by (simp add: laps_def)
qed

lemma laps_not0:
  assumes "0 < bpb" "b mod bpb \<noteq> 0"
  shows "laps bpb b = b div bpb + 1"
proof -
  define r where "r = b mod bpb"
  define q where "q = b div bpb"
  have b: "b = q * bpb + r" by (simp add: q_def r_def)
  have r: "0 < r" "r < bpb" using assms by (auto simp: r_def)
  have "laps bpb b = (q * bpb + r + bpb - 1) div bpb"
    unfolding laps_def by (subst b) (rule refl)
  also have "\<dots> = q + 1"
    using r by (intro div_nat_eqI) (auto simp: mult.commute)
  finally show ?thesis by (simp add: q_def)
qed

lemma laps_Suc: "0 < bpb \<Longrightarrow> laps bpb (Suc b) = b div bpb + 1"
  by (simp add: laps_def)

lemma laps_reset: "laps bpb 0 = 0"
  by (cases bpb) (simp_all add: laps_def)

lemma tick_notified:
  assumes "0 < beatsPerBar st" "subscribed st"
    and "currentBar st = laps (beatsPerBar st) (currentBeat st)"
  shows "notified (fst (tick st)) =
           Some (Some (currentBeat st mod beatsPerBar st), currentBeat st div beatsPerBar st + 1)"
proof (cases "currentBeat st mod beatsPerBar st = 0")
  case True
  with assms laps_at0[of "beatsPerBar st" "currentBeat st"] show ?thesis
    by (simp add: tick_def Let_def js_rem_def)
next
  case False
  with assms laps_not0[of "beatsPerBar st" "currentBeat st"] show ?thesis
    by (simp add: tick_def Let_def js_rem_def)
qed

lemma tick_state:
  assumes "0 < beatsPerBar st" "currentBar st = laps (beatsPerBar st) (currentBeat st)"
  shows "beatsPerBar (snd (tick st)) = beatsPerBar st"
    and "subscribed (snd (tick st)) = subscribed st"
    and "currentBeat (snd (tick st)) = Suc (currentBeat st)"
    and "currentBar (snd (tick st)) = laps (beatsPerBar st) (Suc (currentBeat st))"
proof -
  show "beatsPerBar (snd (tick st)) = beatsPerBar st"
    and "subscribed (snd (tick st)) = subscribed st"
    and "currentBeat (snd (tick st)) = Suc (currentBeat st)"
    by (simp_all add: tick_def Let_def)
  show "currentBar (snd (tick st)) = laps (beatsPerBar st) (Suc (currentBeat st))"
  proof (cases "currentBeat st mod beatsPerBar st = 0")
    case True
    with assms laps_at0[of "beatsPerBar st" "currentBeat st"] show ?thesis
      by (simp add: tick_def Let_def js_rem_def laps_Suc)
  next
    case False
    with assms laps_not0[of "beatsPerBar st" "currentBeat st"] show ?thesis
      by (simp add: tick_def Let_def js_rem_def laps_Suc)
  qed
qed

text \<open>
  From any state whose bar counter agrees with its beat counter (as after a reset), the
  \<open>k\<close>-th tick notifies beat \<open>k mod beatsPerBar\<close> of bar \<open>k div beatsPerBar + 1\<close>.
\<close>

lemma run_ticks_notifications:
  assumes "0 < beatsPerBar st" "subscribed st"
    and "currentBar st = laps (beatsPerBar st) (currentBeat st)"
  shows "notifications (fst (run_ticks n st)) =
     map (\<lambda>k. (Some (k mod beatsPerBar st), k div beatsPerBar st + 1))
       [currentBeat st..<currentBeat st + n]"
  using assms
proof (induction n arbitrary: st)
  case 0
  then show ?case by (simp add: notifications_def List.map_filter_simps)
next
  case (Suc n)
  let ?st1 = "snd (tick st)"
  have ih: "notifications (fst (run_ticks n ?st1)) =
     map (\<lambda>k. (Some (k mod beatsPerBar st), k div beatsPerBar st + 1))
       [Suc (currentBeat st)..<Suc (currentBeat st) + n]"
    using Suc.IH[of ?st1] Suc.prems tick_state[of st] by simp
  have "notifications (fst (run_ticks (Suc n) st)) =
      the (notified (fst (tick st))) # notifications (fst (run_ticks n ?st1))"
    using tick_notified[OF Suc.prems]
    by (simp add: notifications_def List.map_filter_simps split_beta)
  then show ?case
    using ih tick_notified[OF Suc.prems] by (simp add: upt_rec[of "currentBeat st"])
qed

lemma tick_bar:
  "currentBar (snd (tick st)) =
     (if js_rem (currentBeat st) (beatsPerBar st) = Some 0
      then currentBar st + 1 else currentBar st)"
  by (simp add: tick_def Let_def)

lemma eight_ticks:
  assumes "beatsPerBar st = 4" "currentBeat st = 0" "currentBar st = 0" "subscribed st"
  shows "notifications (fst (run_ticks 8 st)) =
     [(Some 0, 1), (Some 1, 1), (Some 2, 1), (Some 3, 1),
      (Some 0, 2), (Some 1, 2), (Some 2, 2), (Some 3, 2)]"
proof -
  have "notifications (fst (run_ticks 8 st)) =
     map (\<lambda>k. (Some (k mod 4), k div 4 + 1)) [0..<8]"
    using run_ticks_notifications[of st 8] assms by (simp add: laps_reset)
  also have "[0..<8::nat] = [0, 1, 2, 3, 4, 5, 6, 7]" by (simp add: upt_rec)
  finally show ?thesis by simp
qed

text \<open>
  C3. With \<open>beatsPerBar = 4\<close>, both counters at zero and a subscriber registered, eight
  runs of the loop callback notify the subscriber with the beat-in-bar indices
  0,1,2,3,0,1,2,3 and the bar indices 1,1,1,1,2,2,2,2. In every state, one run of the
  callback increments the bar counter exactly when the beat-in-bar index it computes is
  0, and leaves it unchanged otherwise.
\<close>

theorem tick_counting:
  "(beatsPerBar st = 4 \<and> currentBeat st = 0 \<and> currentBar st = 0 \<and> subscribed st \<longrightarrow>
      map fst (notifications (fst (run_ticks 8 st)))
        = [Some 0, Some 1, Some 2, Some 3, Some 0, Some 1, Some 2, Some 3]
      \<and> map snd (notifications (fst (run_ticks 8 st))) = [1, 1, 1, 1, 2, 2, 2, 2])
   \<and> currentBar (snd (tick st')) =
       (if js_rem (currentBeat st') (beatsPerBar st') = Some 0
        then currentBar st' + 1 else currentBar st')"
  using eight_ticks[of st] tick_bar[of st'] by simp

theorem tick_counting_witness:
  "beatsPerBar (onTick True metronome_init) = 4
   \<and> currentBeat (onTick True metronome_init) = 0
   \<and> currentBar (onTick True metronome_init) = 0
   \<and> subscribed (onTick True metronome_init)
   \<and> map fst (notifications (fst (run_ticks 8 (onTick True metronome_init))))
        = [Some 0, Some 1, Some 2, Some 3, Some 0, Some 1, Some 2, Some 3]
   \<and> map snd (notifications (fst (run_ticks 8 (onTick True metronome_init))))
        = [1, 1, 1, 1, 2, 2, 2, 2]"
proof -
  have h: "beatsPerBar (onTick True metronome_init) = 4"
    "currentBeat (onTick True metronome_init) = 0"
    "currentBar (onTick True metronome_init) = 0"
    "subscribed (onTick True metronome_init)"
    by (simp_all add: onTick_def metronome_init_def)
  from tick_counting[of "onTick True metronome_init" metronome_init] h show ?thesis
    by simp
qed

section \<open>Resizing the bar\<close>

lemma copy_prefix_fold:
  "k \<le> length dst \<Longrightarrow> k \<le> length old \<Longrightarrow>
   fold (\<lambda>i acc. acc[i := old ! i]) [0..<k] dst = take k old @ drop k dst"
proof (induction k)
  case 0
  then show ?case by simp
next
  case (Suc k)
  then have "fold (\<lambda>i acc. acc[i := old ! i]) [0..<Suc k] dst
      = (take k old @ drop k dst)[k := old ! k]" by simp
  also have "\<dots> = take k old @ (drop k dst)[0 := old ! k]"
    using Suc.prems by (simp add: list_update_append)
  also have "\<dots> = take k old @ (old ! k # drop (Suc k) dst)"
    using Suc.prems by (simp add: Cons_nth_drop_Suc[symmetric])
  also have "\<dots> = take (Suc k) old @ drop (Suc k) dst"
    using Suc.prems by (simp add: take_Suc_conv_app_nth)
  finally show ?case .
qed

lemma copy_prefix_eq:
  "copy_prefix old n (replicate n d) = take n old @ replicate (n - length old) d"
  unfolding copy_prefix_def
  by (subst copy_prefix_fold) (auto simp: min_def)

lemma resized_length: "length (copy_prefix old n (replicate n d)) = n"
  by (simp add: copy_prefix_eq)

lemma resized_old:
  "i < length old \<Longrightarrow> i < n \<Longrightarrow> copy_prefix old n (replicate n d) ! i = old ! i"
  by (simp add: copy_prefix_eq nth_append)

lemma resized_new:
  "length old \<le> i \<Longrightarrow> i < n \<Longrightarrow> copy_prefix old n (replicate n d) ! i = d"
  by (simp add: copy_prefix_eq nth_append)

text \<open>
  C7, as the code has it. For every finite number \<open>next\<close>, the stored beats-per-bar is
  the floor of \<open>next\<close> clamped into [1,12], which is \<open>next\<close> itself clamped when \<open>next\<close>
  is an integer. Both arrays get the new beats-per-bar as their length; an index below
  the old and the new length keeps its accent and its volume; an index from the old
  length on holds accent \<open>False\<close> and volume 1.
\<close>

theorem setBeatsPerBar_resize:
  "int (beatsPerBar (setBeatsPerBar next st)) = max 1 (min 12 \<lfloor>next\<rfloor>)
   \<and> (next \<in> \<int> \<longrightarrow> real (beatsPerBar (setBeatsPerBar next st)) = max 1 (min 12 next))
   \<and> length (accents (setBeatsPerBar next st)) = beatsPerBar (setBeatsPerBar next st)
   \<and> length (volumes (setBeatsPerBar next st)) = beatsPerBar (setBeatsPerBar next st)
   \<and> (i < length (accents st) \<and> i < beatsPerBar (setBeatsPerBar next st)
        \<longrightarrow> accents (setBeatsPerBar next st) ! i = accents st ! i)
   \<and> (i < length (volumes st) \<and> i < beatsPerBar (setBeatsPerBar next st)
        \<longrightarrow> volumes (setBeatsPerBar next st) ! i = volumes st ! i)
   \<and> (length (accents st) \<le> j \<and> j < beatsPerBar (setBeatsPerBar next st)
        \<longrightarrow> accents (setBeatsPerBar next st) ! j = False)
   \<and> (length (volumes st) \<le> j \<and> j < beatsPerBar (setBeatsPerBar next st)
        \<longrightarrow> volumes (setBeatsPerBar next st) ! j = 1)"
proof -
  define n where "n = nat (max 1 (min 12 \<lfloor>next\<rfloor>))"
  have b: "beatsPerBar (setBeatsPerBar next st) = n"
    and a: "accents (setBeatsPerBar next st) = copy_prefix (accents st) n (replicate n False)"
    and v: "volumes (setBeatsPerBar next st) = copy_prefix (volumes st) n (replicate n 1)"
    by (simp_all add: setBeatsPerBar_def Let_def n_def)
  have 1: "int n = max 1 (min 12 \<lfloor>next\<rfloor>)" by (simp add: n_def)
  have 2: "next \<in> \<int> \<longrightarrow> real n = max 1 (min 12 next)"
  proof
    assume "next \<in> \<int>"
    then obtain z where z: "next = of_int z" by (auto elim: Ints_cases)
    have "real n = real_of_int (max 1 (min 12 z))" using 1 z by (simp add: n_def)
    also have "\<dots> = max 1 (min 12 (of_int z))" by (simp add: max_def min_def)
    finally show "real n = max 1 (min 12 next)" using z by simp
  qed
  show ?thesis
    unfolding b a v using 1 2
    by (simp add: resized_length resized_old resized_new)
qed

theorem setBeatsPerBar_resize_witness:
  "(6::real) \<in> \<int>
   \<and> beatsPerBar (setBeatsPerBar 6 metronome_init) = 6
   \<and> (0::nat) < length (accents metronome_init)
   \<and> 0 < beatsPerBar (setBeatsPerBar 6 metronome_init)
   \<and> accents (setBeatsPerBar 6 metronome_init) ! 0 = True
   \<and> volumes (setBeatsPerBar 6 metronome_init) ! 0 = 1
   \<and> length (accents metronome_init) \<le> 5
   \<and> 5 < beatsPerBar (setBeatsPerBar 6 metronome_init)
   \<and> accents (setBeatsPerBar 6 metronome_init) ! 5 = False
   \<and> volumes (setBeatsPerBar 6 metronome_init) ! 5 = 1"
proof -
  have n: "beatsPerBar (setBeatsPerBar 6 metronome_init) = 6"
    by (simp add: setBeatsPerBar_def Let_def)
  have l: "length (accents metronome_init) = 4" "length (volumes metronome_init) = 4"
     "accents metronome_init ! 0 = True" "volumes metronome_init ! 0 = 1"
    by (simp_all add: metronome_init_def)
  show ?thesis
    using setBeatsPerBar_resize[of 6 metronome_init 0 5] n l by simp
qed

text \<open>
  The claim as stated fails on a fractional argument: \<open>setBeatsPerBar(2.5)\<close> stores 2,
  while 2.5 clamped into [1,12] is 2.5.
\<close>

theorem setBeatsPerBar_floor_counterexample:
  "real (beatsPerBar (setBeatsPerBar (5/2) metronome_init)) \<noteq> max 1 (min 12 (5/2))"
proof -
  have "\<lfloor>5/2::real\<rfloor> = 2" by linarith
  then have "beatsPerBar (setBeatsPerBar (5/2) metronome_init) = 2"
    by (simp add: setBeatsPerBar_def Let_def)
  then show ?thesis by simp
qed

section \<open>Starting the scheduler\<close>

text \<open>
  C4, evaluated on the code. \<open>start\<close> tests the awaited result of \<open>ensureAudioStarted\<close>,
  which is \<open>undefined\<close> on every path, so \<open>start\<close> returns before \<open>init()\<close> whatever the
  state of the audio context and whether or not unlocking succeeds: the scheduler's state
  is unchanged. In particular, from the module's initial state with a suspended context
  that unlocks successfully, the context ends up running and the scheduler is neither
  running nor has its loop been started.
\<close>

theorem start_returns_before_init:
  "fst (start c unlock_ok st) = st
   \<and> snd (start Suspended True metronome_init) = Running
   \<and> \<not> isRunning (fst (start Suspended True metronome_init))
   \<and> \<not> loopStarted (fst (start Suspended True metronome_init))"
  by (simp add: start_def ensureAudioStarted_def metronome_init_def)

section \<open>The engine mode\<close>

lemma fallback_ensureSynth: "useSynthFallback (ensureSynth st) = useSynthFallback st"
  by (simp add: ensureSynth_def)

lemma fallback_emit: "useSynthFallback (emit cs st) = useSynthFallback st"
  by (simp add: emit_def)

lemma fallback_chokeHiHatAll: "useSynthFallback (chokeHiHatAll now st) = useSynthFallback st"
  by (simp add: chokeHiHatAll_def fallback_emit fallback_ensureSynth)

lemma getDrumSampler_keeps_fallback:
  "useSynthFallback st \<Longrightarrow> useSynthFallback (getDrumSampler load st)"
  by (simp add: getDrumSampler_def fallback_ensureSynth)

lemma triggerPad_keeps_fallback:
  assumes "useSynthFallback st"
  shows "useSynthFallback (state_of (triggerPad ok load now pad v st))"
proof -
  let ?st1 = "st\<lparr> ctx := snd (ensureAudioStarted (ctx st) ok) \<rparr>"
  have "useSynthFallback (getDrumSampler load ?st1)"
    using assms by (intro getDrumSampler_keeps_fallback) simp
  then show ?thesis
    by (simp add: triggerPad_def Let_def fallback_emit fallback_ensureSynth
          fallback_chokeHiHatAll)
qed

lemma triggerMidi_keeps_fallback:
  "useSynthFallback st \<Longrightarrow> useSynthFallback (state_of (triggerMidi ok load now n v st))"
  by (simp add: triggerMidi_def triggerPad_keeps_fallback split: option.splits)

lemma apply_op_keeps_fallback: "useSynthFallback st \<Longrightarrow> useSynthFallback (apply_op op st)"
  by (cases op)
     (simp_all add: getDrumSampler_keeps_fallback triggerPad_keeps_fallback
        triggerMidi_keeps_fallback setHiHatOpenByCC4_def)

lemma run_ops_keeps_fallback: "useSynthFallback st \<Longrightarrow> useSynthFallback (run_ops ops st)"
  unfolding run_ops_def by (induction ops arbitrary: st) (simp_all add: apply_op_keeps_fallback)

lemma first_failure_sets_fallback:
  "\<not> loaded st \<Longrightarrow> load \<noteq> LoadOk \<Longrightarrow> useSynthFallback (getDrumSampler load st)"
  by (cases load) (simp_all add: getDrumSampler_def fallback_ensureSynth)

text \<open>
  C8. The engine starts in sampled mode (\<open>useSynthFallback\<close> is false); the load attempt,
  which only the first \<open>getDrumSampler\<close> call makes, sets the flag when it fails; and once
  the flag is set, no sequence of the module's exported operations clears it.
\<close>

theorem engine_mode_lifecycle:
  "\<not> useSynthFallback engine_init
   \<and> (\<not> loaded st \<and> load \<noteq> LoadOk \<longrightarrow> useSynthFallback (getDrumSampler load st))
   \<and> (useSynthFallback st \<longrightarrow> useSynthFallback (run_ops ops st))"
  using first_failure_sets_fallback[of st load] run_ops_keeps_fallback[of st ops]
  by (simp add: engine_init_def)

theorem engine_mode_lifecycle_witness:
  "\<not> loaded engine_init \<and> LoadError \<noteq> LoadOk
   \<and> useSynthFallback (getDrumSampler LoadError engine_init)
   \<and> useSynthFallback
       (run_ops [OpGetDrumSampler LoadOk, OpTriggerPad True LoadOk 0 HiHatOpen 100,
                 OpIsUsingFallback, OpTriggerMidi True LoadOk 1 36 90]
          (getDrumSampler LoadError engine_init))"
proof -
  have a: "\<not> loaded engine_init" by (simp add: engine_init_def)
  have b: "useSynthFallback (getDrumSampler LoadError engine_init)"
    using engine_mode_lifecycle[of engine_init LoadError "[]"] a by simp
  show ?thesis
    using a b engine_mode_lifecycle[of "getDrumSampler LoadError engine_init" LoadError
      "[OpGetDrumSampler LoadOk, OpTriggerPad True LoadOk 0 HiHatOpen 100,
        OpIsUsingFallback, OpTriggerMidi True LoadOk 1 36 90]"]
    by simp
qed

section \<open>The hi-hat choke\<close>

lemma new_cmds_append: "cmds after = cmds before @ cs \<Longrightarrow> new_cmds before after = cs"
  by (simp add: new_cmds_def)

lemma cmds_ensureSynth: "cmds (ensureSynth st) = cmds st"
  by (simp add: ensureSynth_def)

lemma cmds_emit: "cmds (emit cs st) = cmds st @ cs"
  by (simp add: emit_def)

lemma getDrumSampler_fallback: "useSynthFallback st \<Longrightarrow> getDrumSampler load st = ensureSynth st"
  by (simp add: getDrumSampler_def)

lemma getDrumSampler_sampled:
  "\<not> useSynthFallback st \<Longrightarrow> loaded st \<Longrightarrow> getDrumSampler load st = st"
  by (simp add: getDrumSampler_def)

lemma chokeHiHatAll_fallback_cmds:
  "useSynthFallback st \<Longrightarrow> cmds (chokeHiHatAll now st) = cmds st @ [BusRelease bus_hat now]"
  by (simp add: chokeHiHatAll_def cmds_emit cmds_ensureSynth)

lemma chokeHiHatAll_sampled:
  "\<not> useSynthFallback st \<Longrightarrow> sampler st \<Longrightarrow>
   chokeHiHatAll now st = emit [SamplerRelease As2 now, SamplerRelease Fs2 now] st"
  by (simp add: chokeHiHatAll_def)

lemma triggerPad_fallback:
  assumes "useSynthFallback st"
  shows "triggerPad ok load now pad v st =
     Returned (emit (synthCmds (padToVoice pad) now (max 0 (min 1 (v / 127))))
       (ensureSynth
         (if pad = HiHatClosed \<or> pad = HiHatOpen \<or> pad = HiHatPedal
          then chokeHiHatAll now (ensureSynth (st\<lparr> ctx := snd (ensureAudioStarted (ctx st) ok) \<rparr>))
          else ensureSynth (st\<lparr> ctx := snd (ensureAudioStarted (ctx st) ok) \<rparr>))))"
proof -
  let ?st1 = "st\<lparr> ctx := snd (ensureAudioStarted (ctx st) ok) \<rparr>"
  have 1: "useSynthFallback ?st1" using assms by simp
  have 2: "getDrumSampler load ?st1 = ensureSynth ?st1" by (rule getDrumSampler_fallback[OF 1])
  have 3: "useSynthFallback (ensureSynth ?st1)" using 1 by (simp add: ensureSynth_def)
  have 4: "useSynthFallback (chokeHiHatAll now (ensureSynth ?st1))"
    using 3 by (simp add: fallback_chokeHiHatAll)
  show ?thesis
    unfolding triggerPad_def Let_def 2 using 3 4 by simp
qed

lemma triggerPad_fallback_hat_cmds:
  assumes "useSynthFallback st" "pad = HiHatClosed \<or> pad = HiHatOpen \<or> pad = HiHatPedal"
  shows "new_cmds st (state_of (triggerPad ok load now pad v st)) =
     BusRelease bus_hat now # synthCmds (padToVoice pad) now (max 0 (min 1 (v / 127)))"
  using assms
  by (intro new_cmds_append)
     (simp add: triggerPad_fallback cmds_emit cmds_ensureSynth chokeHiHatAll_fallback_cmds
        fallback_ensureSynth)

lemma hat_synth_sources:
  assumes "pad = HiHatClosed \<or> pad = HiHatOpen \<or> pad = HiHatPedal"
  shows "List.map_filter attacked (BusRelease bus_hat t # synthCmds (padToVoice pad) now vel)
           = [Bus bus_hat]"
    and "List.map_filter (released_at t)
           (before_attack (BusRelease bus_hat t # synthCmds (padToVoice pad) now vel))
           = [Bus bus_hat]"
  using assms by (auto simp: List.map_filter_simps before_attack_def)

text \<open>
  In fallback mode the three hi-hat pads ring on the one metal voice, and every hi-hat
  hit releases that voice before its own attack: each ordered pair is choked.
\<close>

lemma choke_fallback:
  assumes "p1 = HiHatClosed \<or> p1 = HiHatOpen \<or> p1 = HiHatPedal"
    and "p2 = HiHatClosed \<or> p2 = HiHatOpen \<or> p2 = HiHatPedal"
    and "useSynthFallback st"
  shows "chokes now2 (new_cmds st (state_of (triggerPad ok1 l1 now1 p1 v1 st)))
           (new_cmds (state_of (triggerPad ok1 l1 now1 p1 v1 st))
              (state_of (triggerPad ok2 l2 now2 p2 v2
                 (state_of (triggerPad ok1 l1 now1 p1 v1 st)))))"
proof -
  let ?st1 = "state_of (triggerPad ok1 l1 now1 p1 v1 st)"
  have m: "useSynthFallback ?st1" by (rule triggerPad_keeps_fallback[OF assms(3)])
  show ?thesis
    unfolding chokes_def
      triggerPad_fallback_hat_cmds[OF assms(3) assms(1)]
      triggerPad_fallback_hat_cmds[OF m assms(2)]
      hat_synth_sources(1)[OF assms(1)] hat_synth_sources(2)[OF assms(2)]
    by simp
qed

lemma triggerPad_sampled_hat:
  assumes "\<not> useSynthFallback st" "loaded st" "sampler st"
    and "pad = HiHatClosed \<or> pad = HiHatOpen \<or> pad = HiHatPedal"
  shows "triggerPad ok load now pad v st =
     Returned (emit (hatSampleCmds pad now (max 0 (min 1 (v / 127))))
        (emit [SamplerRelease As2 now, SamplerRelease Fs2 now]
           (st\<lparr> ctx := snd (ensureAudioStarted (ctx st) ok) \<rparr>)))"
proof -
  let ?st1 = "st\<lparr> ctx := snd (ensureAudioStarted (ctx st) ok) \<rparr>"
  have 1: "\<not> useSynthFallback ?st1" "loaded ?st1" "sampler ?st1" using assms by simp_all
  have 2: "getDrumSampler load ?st1 = ?st1" by (rule getDrumSampler_sampled[OF 1(1,2)])
  have 3: "chokeHiHatAll now ?st1 = emit [SamplerRelease As2 now, SamplerRelease Fs2 now] ?st1"
    by (rule chokeHiHatAll_sampled[OF 1(1,3)])
  have 4: "\<not> useSynthFallback (emit [SamplerRelease As2 now, SamplerRelease Fs2 now] ?st1)"
     "sampler (emit [SamplerRelease As2 now, SamplerRelease Fs2 now] ?st1)"
    using 1 by (simp_all add: emit_def)
  from assms(4) show ?thesis
    unfolding triggerPad_def Let_def 2 using 3 4 by auto
qed

lemma triggerPad_sampled_hat_cmds:
  assumes "\<not> useSynthFallback st" "loaded st" "sampler st"
    and "pad = HiHatClosed \<or> pad = HiHatOpen \<or> pad = HiHatPedal"
  shows "new_cmds st (state_of (triggerPad ok load now pad v st)) =
      [SamplerRelease As2 now, SamplerRelease Fs2 now]
        @ hatSampleCmds pad now (max 0 (min 1 (v / 127)))"
  by (intro new_cmds_append) (simp add: triggerPad_sampled_hat[OF assms] cmds_emit)

lemma triggerPad_sampled_hat_state:
  assumes "\<not> useSynthFallback st" "loaded st" "sampler st"
    and "pad = HiHatClosed \<or> pad = HiHatOpen \<or> pad = HiHatPedal"
  shows "\<not> useSynthFallback (state_of (triggerPad ok load now pad v st))"
    "loaded (state_of (triggerPad ok load now pad v st))"
    "sampler (state_of (triggerPad ok load now pad v st))"
  using assms(1-3) by (simp_all add: triggerPad_sampled_hat[OF assms] emit_def)

text \<open>
  In sampled mode a hit of the closed or the open pad is choked by whichever hi-hat pad
  is triggered next: \<open>chokeHiHatAll\<close> releases the notes \<open>F#2\<close> and \<open>A#2\<close>.
\<close>

lemma choke_sampled:
  assumes "p1 = HiHatClosed \<or> p1 = HiHatOpen"
    and "p2 = HiHatClosed \<or> p2 = HiHatOpen \<or> p2 = HiHatPedal"
    and "\<not> useSynthFallback st" "loaded st" "sampler st"
  shows "chokes now2 (new_cmds st (state_of (triggerPad ok1 l1 now1 p1 v1 st)))
           (new_cmds (state_of (triggerPad ok1 l1 now1 p1 v1 st))
              (state_of (triggerPad ok2 l2 now2 p2 v2
                 (state_of (triggerPad ok1 l1 now1 p1 v1 st)))))"
proof -
  have h1: "p1 = HiHatClosed \<or> p1 = HiHatOpen \<or> p1 = HiHatPedal" using assms(1) by blast
  note s1 = triggerPad_sampled_hat_state[OF assms(3-5) h1, of ok1 l1 now1 v1]
  have a: "set (List.map_filter attacked (new_cmds st (state_of (triggerPad ok1 l1 now1 p1 v1 st))))
       \<subseteq> {SampleNote Fs2, SampleNote As2}"
    unfolding triggerPad_sampled_hat_cmds[OF assms(3-5) h1]
    using assms(1) by (auto simp: List.map_filter_simps)
  have b: "{SampleNote Fs2, SampleNote As2}
       \<subseteq> set (List.map_filter (released_at now2) (before_attack
            (new_cmds (state_of (triggerPad ok1 l1 now1 p1 v1 st))
               (state_of (triggerPad ok2 l2 now2 p2 v2
                  (state_of (triggerPad ok1 l1 now1 p1 v1 st)))))))"
    unfolding triggerPad_sampled_hat_cmds[OF s1 assms(2)]
    using assms(2) by (auto simp: List.map_filter_simps before_attack_def)
  from a b show ?thesis unfolding chokes_def by blast
qed

text \<open>
  C2, evaluated on the code. In sampled mode the pedal pad attacks the note \<open>G#2\<close>, which
  \<open>chokeHiHatAll\<close> does not release. A pedal hit at time 0 sends the two releases, the
  attack of \<open>G#2\<close> and its scheduled release at 0.16 s; an open hit at 0.05 s, while the
  pedal's note still rings, sends a release of \<open>A#2\<close>, a release of \<open>F#2\<close> and the attack
  of \<open>A#2\<close>: the pedal's note is not released before the open hit is rendered.
\<close>

theorem pedal_not_choked:
  "\<not> useSynthFallback after_open
   \<and> new_cmds sampled_ready after_pedal =
       [SamplerRelease As2 0, SamplerRelease Fs2 0, SamplerAttack Gs2 0 (100/127),
        SamplerRelease Gs2 (0 + HH_CLOSED_RELEASE)]
   \<and> new_cmds after_pedal after_open =
       [SamplerRelease As2 (1/20), SamplerRelease Fs2 (1/20), SamplerAttack As2 (1/20) (100/127)]
   \<and> (1/20 :: real) < 0 + HH_CLOSED_RELEASE
   \<and> \<not> chokes (1/20) (new_cmds sampled_ready after_pedal) (new_cmds after_pedal after_open)"
proof -
  have s0: "\<not> useSynthFallback sampled_ready" "loaded sampled_ready" "sampler sampled_ready"
    by (simp_all add: sampled_ready_def getDrumSampler_def engine_init_def)
  have s1: "\<not> useSynthFallback after_pedal" "loaded after_pedal" "sampler after_pedal"
    unfolding after_pedal_def by (rule triggerPad_sampled_hat_state[OF s0], simp)+
  have s2: "\<not> useSynthFallback after_open"
    unfolding after_open_def by (rule triggerPad_sampled_hat_state[OF s1], simp)
  have c1: "new_cmds sampled_ready after_pedal =
       [SamplerRelease As2 0, SamplerRelease Fs2 0, SamplerAttack Gs2 0 (100/127),
        SamplerRelease Gs2 (0 + HH_CLOSED_RELEASE)]"
    unfolding after_pedal_def by (subst triggerPad_sampled_hat_cmds[OF s0]) simp_all
  have c2: "new_cmds after_pedal after_open =
       [SamplerRelease As2 (1/20), SamplerRelease Fs2 (1/20), SamplerAttack As2 (1/20) (100/127)]"
    unfolding after_open_def by (subst triggerPad_sampled_hat_cmds[OF s1]) simp_all
  have c3: "\<not> chokes (1/20) (new_cmds sampled_ready after_pedal) (new_cmds after_pedal after_open)"
    unfolding c1 c2 by (simp add: chokes_def before_attack_def List.map_filter_simps)
  have c4: "(1/20 :: real) < 0 + HH_CLOSED_RELEASE" by (simp add: HH_CLOSED_RELEASE_def)
  from s2 c1 c2 c3 c4 show ?thesis by blast
qed

section \<open>Persistence of the binding table\<close>

lemma obj_put_append:
  "\<forall>k' \<in> set (map fst acc). k' < k \<Longrightarrow> obj_put k v acc = acc @ [(k, v)]"
  by (induction acc) auto

lemma fold_obj_put_sorted:
  "sorted_wrt (<) (map fst (acc @ es)) \<Longrightarrow>
   fold (\<lambda>(k, v) acc. obj_put k v acc) es acc = acc @ es"
proof (induction es arbitrary: acc)
  case Nil
  then show ?case by simp
next
  case (Cons e es)
  obtain k v where e: "e = (k, v)" by (cases e)
  have lt: "\<forall>k' \<in> set (map fst acc). k' < k"
    using Cons.prems by (auto simp: e sorted_wrt_append)
  have "fold (\<lambda>(k, v) acc. obj_put k v acc) (e # es) acc
      = fold (\<lambda>(k, v) acc. obj_put k v acc) es (acc @ [(k, v)])"
    by (simp add: e obj_put_append[OF lt])
  also have "\<dots> = (acc @ [(k, v)]) @ es"
    using Cons.prems by (intro Cons.IH) (simp add: e)
  finally show ?case by (simp add: e)
qed

lemma fromEntries_object: "is_object tbl \<Longrightarrow> fromEntries tbl = tbl"
  unfolding is_object_def fromEntries_def using fold_obj_put_sorted[of "[]" tbl] by simp

lemma normalize_as_partial: "normalizeBinding (Some (as_partial b)) = b"
  by (simp add: normalizeBinding_def as_partial_def)

lemma reload_entries:
  "map (\<lambda>(m, b). (m, normalizeBinding b)) (to_stored tbl) = tbl"
  by (induction tbl) (auto simp: to_stored_def normalize_as_partial)

text \<open>
  C9. For every binding table (a JavaScript object: its entries in ascending order of
  target), writing it to the store as a committed mutation does and reading the store
  back through the initialiser of the \<open>bindings\<close> state yields the same table, whatever
  the legacy item holds: the same targets with the same keys, extra notes and
  controllers.
\<close>

theorem persist_load_roundtrip:
  assumes "is_object tbl"
  shows "loadBindings (store (persistBindings tbl st)) legacy = tbl
     \<and> bindings (resolver_init (store (persistBindings tbl st)) legacy) = tbl"
  using assms
  by (simp add: persistBindings_def loadBindings_def resolver_init_def reload_entries
        fromEntries_object)

theorem persist_load_roundtrip_witness:
  "is_object sample_table
   \<and> loadBindings (store (persistBindings sample_table fresh)) NoItem = sample_table
   \<and> bindings (resolver_init (store (persistBindings sample_table fresh)) NoItem) = sample_table"
proof -
  have w: "is_object sample_table" by (simp add: is_object_def sample_table_def)
  from persist_load_roundtrip[OF w] w show ?thesis by simp
qed

section \<open>Uniqueness of bindings\<close>

lemma in_obj_put:
  "(k', b) \<in> set (obj_put k v tbl) \<Longrightarrow> (k' = k \<and> b = v) \<or> (k', b) \<in> set tbl"
  by (induction tbl) (auto split: if_splits)

lemma unique_bindingsD:
  assumes "unique_bindings tbl" "(t1, b1) \<in> set tbl" "(t2, b2) \<in> set tbl" "t1 \<noteq> t2"
  shows "disjoint_bindings b1 b2"
proof -
  from assms(1,2) have "\<forall>(t2, b2) \<in> set tbl. t1 \<noteq> t2 \<longrightarrow> disjoint_bindings b1 b2"
    unfolding unique_bindings_def by (drule_tac x="(t1, b1)" in bspec) simp_all
  with assms(3,4) show ?thesis by (drule_tac x="(t2, b2)" in bspec) simp_all
qed

lemma disjoint_bindings_sym: "disjoint_bindings a b = disjoint_bindings b a"
  by (auto simp: disjoint_bindings_def)

lemma unique_put:
  assumes u: "unique_bindings tbl"
    and d: "\<And>m b. (m, b) \<in> set tbl \<Longrightarrow> m \<noteq> t \<Longrightarrow> disjoint_bindings v b"
  shows "unique_bindings (obj_put t v tbl)"
  unfolding unique_bindings_def
proof (clarify)
  fix t1 b1 t2 b2
  assume 1: "(t1, b1) \<in> set (obj_put t v tbl)" and 2: "(t2, b2) \<in> set (obj_put t v tbl)"
    and ne: "t1 \<noteq> t2"
  from in_obj_put[OF 1] in_obj_put[OF 2]
  consider "t1 = t" "b1 = v" "(t2, b2) \<in> set tbl"
    | "t2 = t" "b2 = v" "(t1, b1) \<in> set tbl"
    | "(t1, b1) \<in> set tbl" "(t2, b2) \<in> set tbl"
    using ne by blast
  then show "disjoint_bindings b1 b2"
  proof cases
    case 1 with d[of t2 b2] ne show ?thesis by simp
  next
    case 2 with d[of t1 b1] ne show ?thesis by (simp add: disjoint_bindings_sym)
  next
    case 3 with u ne show ?thesis by (intro unique_bindingsD[of tbl t1 b1 t2 b2])
  qed
qed

lemma binding_of_cases:
  "(\<exists>b. (t, b) \<in> set tbl \<and> binding_of tbl t = b)
   \<or> binding_of tbl t = \<lparr> keys = [], midis = [], ccs = [] \<rparr>"
proof (cases "map_of tbl t")
  case None
  then show ?thesis by (simp add: binding_of_def normalizeBinding_def)
next
  case (Some b)
  then have "(t, b) \<in> set tbl" by (rule map_of_SomeD)
  moreover have "binding_of tbl t = b"
    using Some by (simp add: binding_of_def normalizeBinding_def as_partial_def)
  ultimately show ?thesis by blast
qed

lemma binding_of_disjoint:
  assumes "unique_bindings tbl" "(m, b) \<in> set tbl" "m \<noteq> t"
  shows "disjoint_bindings (binding_of tbl t) b"
  using binding_of_cases[of t tbl]
proof
  assume "\<exists>c. (t, c) \<in> set tbl \<and> binding_of tbl t = c"
  then have "(t, binding_of tbl t) \<in> set tbl" by auto
  from unique_bindingsD[OF assms(1) this assms(2)] assms(3) show ?thesis by simp
next
  assume "binding_of tbl t = \<lparr> keys = [], midis = [], ccs = [] \<rparr>"
  then show ?thesis by (simp add: disjoint_bindings_def)
qed

lemma find_owner_None:
  "find_owner field t x tbl = None \<Longrightarrow> (m, b) \<in> set tbl \<Longrightarrow> m \<noteq> t \<Longrightarrow> x \<notin> set (field b)"
  by (auto simp: find_owner_def find_None_iff)

lemma unique_add_key:
  assumes "unique_bindings tbl"
    and "\<not> list_ex (\<lambda>(m, b). m \<noteq> t \<and> k \<in> set (keys b)) tbl"
  shows "unique_bindings (obj_put t ((binding_of tbl t)\<lparr> keys := keys (binding_of tbl t) @ [k] \<rparr>) tbl)"
proof (rule unique_put[OF assms(1)])
  fix m b assume mb: "(m, b) \<in> set tbl" "m \<noteq> t"
  from assms(2) mb have "k \<notin> set (keys b)" by (auto simp: list_ex_iff)
  with binding_of_disjoint[OF assms(1) mb]
  show "disjoint_bindings ((binding_of tbl t)\<lparr> keys := keys (binding_of tbl t) @ [k] \<rparr>) b"
    by (auto simp: disjoint_bindings_def)
qed

lemma unique_add_midi:
  assumes "unique_bindings tbl" and "find_owner midis t n tbl = None"
  shows "unique_bindings (obj_put t ((binding_of tbl t)\<lparr> midis := midis (binding_of tbl t) @ [n] \<rparr>) tbl)"
proof (rule unique_put[OF assms(1)])
  fix m b assume mb: "(m, b) \<in> set tbl" "m \<noteq> t"
  from find_owner_None[OF assms(2) mb] binding_of_disjoint[OF assms(1) mb]
  show "disjoint_bindings ((binding_of tbl t)\<lparr> midis := midis (binding_of tbl t) @ [n] \<rparr>) b"
    by (auto simp: disjoint_bindings_def)
qed

lemma unique_add_cc:
  assumes "unique_bindings tbl" and "find_owner ccs t n tbl = None"
  shows "unique_bindings (obj_put t ((binding_of tbl t)\<lparr> ccs := ccs (binding_of tbl t) @ [n] \<rparr>) tbl)"
proof (rule unique_put[OF assms(1)])
  fix m b assume mb: "(m, b) \<in> set tbl" "m \<noteq> t"
  from find_owner_None[OF assms(2) mb] binding_of_disjoint[OF assms(1) mb]
  show "disjoint_bindings ((binding_of tbl t)\<lparr> ccs := ccs (binding_of tbl t) @ [n] \<rparr>) b"
    by (auto simp: disjoint_bindings_def)
qed

lemma unique_shrink:
  assumes "unique_bindings tbl"
    and "set (keys v) \<subseteq> set (keys (binding_of tbl t))"
    and "set (midis v) \<subseteq> set (midis (binding_of tbl t))"
    and "set (ccs v) \<subseteq> set (ccs (binding_of tbl t))"
  shows "unique_bindings (obj_put t v tbl)"
proof (rule unique_put[OF assms(1)])
  fix m b assume mb: "(m, b) \<in> set tbl" "m \<noteq> t"
  from binding_of_disjoint[OF assms(1) mb] assms(2-4)
  show "disjoint_bindings v b" by (auto simp: disjoint_bindings_def)
qed

lemma unique_empty: "unique_bindings []"
  by (simp add: unique_bindings_def)

lemma resolver_inv_fields:
  "bindings st' = bindings st \<Longrightarrow> keydownListeners st' = keydownListeners st \<Longrightarrow>
   resolver_inv st' = resolver_inv st"
  by (simp add: resolver_inv_def)

lemma inv_persist:
  "resolver_inv st \<Longrightarrow> unique_bindings next \<Longrightarrow> resolver_inv (persistBindings next st)"
  by (simp add: resolver_inv_def persistBindings_def)

lemma inv_flash: "resolver_inv (flash r st) = resolver_inv st"
  by (simp add: flash_def resolver_inv_def split: option.splits)

lemma label_or_other_nonempty: "label_or_other t \<noteq> []"
  by (simp add: label_or_other_def split: option.splits)

lemma truthy_label_found: "truthy_label (map_option label_or_other x) = (x \<noteq> None)"
  by (cases x) (simp_all add: truthy_label_def label_or_other_nonempty)

lemma midiOwnerLabel_falsy:
  assumes "midiOwnerLabel t note tbl = None \<or> midiOwnerLabel t note tbl = Some []"
  shows "find_owner midis t note tbl = None"
proof (cases "find_owner midis t note tbl")
  case None then show ?thesis .
next
  case (Some q)
  then have "midiOwnerLabel t note tbl = Some (label_or_other q)"
    by (simp add: midiOwnerLabel_def Let_def truthy_label_def label_or_other_nonempty)
  with assms label_or_other_nonempty[of q] show ?thesis by simp
qed

lemma inv_commitMidi:
  assumes "resolver_inv st" "find_owner midis t note (bindings st) = None"
  shows "resolver_inv (commitMidi t note st)"
proof -
  have u: "unique_bindings (obj_put t ((binding_of (bindings st) t)\<lparr> midis := midis (binding_of (bindings st) t) @ [note] \<rparr>) (bindings st))"
    using assms by (intro unique_add_midi) (simp_all add: resolver_inv_def)
  show ?thesis
    unfolding commitMidi_def Let_def using assms(1) inv_persist[OF assms(1) u] by simp
qed

lemma inv_drop_listenMidi: "resolver_inv (st\<lparr> listenMidiForMidi := x \<rparr>) = resolver_inv st"
  by (simp add: resolver_inv_def)

lemma inv_captureMidi:
  assumes "resolver_inv st"
  shows "resolver_inv (captureMidi t note st)"
proof (cases "midiOwnerLabel t note (bindings st)")
  case None
  then have "find_owner midis t note (bindings st) = None"
    by (intro midiOwnerLabel_falsy) simp
  from inv_commitMidi[OF assms this] None show ?thesis
    by (simp add: captureMidi_def inv_drop_listenMidi)
next
  case (Some l)
  show ?thesis
  proof (cases "l = []")
    case True
    with Some have "find_owner midis t note (bindings st) = None"
      by (intro midiOwnerLabel_falsy) simp
    from inv_commitMidi[OF assms this] Some True show ?thesis
      by (simp add: captureMidi_def inv_drop_listenMidi)
  next
    case False
    with Some assms show ?thesis by (simp add: captureMidi_def resolver_inv_def)
  qed
qed

lemma inv_playNote: "resolver_inv (playNote note vel st) = resolver_inv st"
  by (simp add: playNote_def Let_def flash_def resolver_inv_def split: option.splits)

lemma inv_midiNoteListener: "resolver_inv st \<Longrightarrow> resolver_inv (midiNoteListener note vel st)"
  by (simp add: midiNoteListener_def inv_captureMidi inv_playNote split: option.splits)

lemma inv_commitCc:
  assumes "resolver_inv st" "find_owner ccs t cc (bindings st) = None"
  shows "resolver_inv (commitCc t cc st)"
proof -
  have u: "unique_bindings (obj_put t ((binding_of (bindings st) t)\<lparr> ccs := ccs (binding_of (bindings st) t) @ [cc] \<rparr>) (bindings st))"
    using assms by (intro unique_add_cc) (simp_all add: resolver_inv_def)
  show ?thesis
    unfolding commitCc_def Let_def using assms(1) inv_persist[OF assms(1) u] by simp
qed

lemma inv_drop_listenCc: "resolver_inv (st\<lparr> listenCcForMidi := x \<rparr>) = resolver_inv st"
  by (simp add: resolver_inv_def)

lemma inv_captureCc:
  assumes "resolver_inv st"
  shows "resolver_inv (captureCc t cc st)"
proof (cases "find_owner ccs t cc (bindings st)")
  case None
  then show ?thesis
    using inv_commitCc[OF assms None] by (simp add: captureCc_def inv_drop_listenCc)
next
  case (Some q)
  with assms label_or_other_nonempty[of q] show ?thesis
    by (simp add: captureCc_def resolver_inv_def)
qed

lemma inv_playCc: "resolver_inv (playCc cc val st) = resolver_inv st"
  by (simp add: playCc_def Let_def flash_def resolver_inv_def split: option.splits)

lemma inv_hat_fx: "resolver_inv (hat_fx cc val st) = resolver_inv st"
  by (simp add: hat_fx_def resolver_inv_def)

lemma inv_ccListener: "resolver_inv st \<Longrightarrow> resolver_inv (ccListener cc val st)"
  by (simp add: ccListener_def Let_def inv_captureCc inv_playCc inv_hat_fx split: option.splits)

lemma inv_once:
  assumes "resolver_inv st" "unique_bindings (snd closure)"
  shows "resolver_inv (once closure k st)"
proof (cases "list_ex (\<lambda>(m, b). m \<noteq> fst closure \<and> k \<in> set (keys b)) (snd closure)")
  case True
  with assms(1) show ?thesis by (simp add: once_def Let_def resolver_inv_def)
next
  case False
  let ?cur = "binding_of (snd closure) (fst closure)"
  have u: "unique_bindings (obj_put (fst closure) (?cur\<lparr> keys := keys ?cur @ [k] \<rparr>) (snd closure))"
    by (rule unique_add_key[OF assms(2) False])
  have "resolver_inv (if k \<notin> set (keys ?cur)
      then persistBindings (obj_put (fst closure) (?cur\<lparr> keys := keys ?cur @ [k] \<rparr>) (snd closure)) st
      else st)"
    using assms(1) inv_persist[OF assms(1) u] by simp
  then have "resolver_inv ((if k \<notin> set (keys ?cur)
      then persistBindings (obj_put (fst closure) (?cur\<lparr> keys := keys ?cur @ [k] \<rparr>) (snd closure)) st
      else st)\<lparr> listenKeyForMidi := None \<rparr>)"
    by (simp add: resolver_inv_def)
  with False show ?thesis by (simp add: once_def Let_def)
qed

lemma inv_fold_once:
  "resolver_inv st \<Longrightarrow> list_all (\<lambda>closure. unique_bindings (snd closure)) cs \<Longrightarrow>
   resolver_inv (fold (\<lambda>closure. once closure k) cs st)"
  by (induction cs arbitrary: st) (simp_all add: inv_once)

lemma inv_keyDown: "resolver_inv st \<Longrightarrow> resolver_inv (keyDown k st)"
  unfolding keyDown_def
  by (rule inv_fold_once) (simp_all add: resolver_inv_def)

lemma inv_clickAddKey: "resolver_inv st \<Longrightarrow> resolver_inv (clickAddKey st)"
  by (simp add: clickAddKey_def resolver_inv_def split: option.splits)

lemma inv_clickAddMidi: "resolver_inv st \<Longrightarrow> resolver_inv (clickAddMidi st)"
  by (simp add: clickAddMidi_def resolver_inv_def split: option.splits)

lemma inv_clickAddCc: "resolver_inv st \<Longrightarrow> resolver_inv (clickAddCc st)"
  by (simp add: clickAddCc_def resolver_inv_def split: option.splits)

lemma inv_removeKey:
  assumes "resolver_inv st"
  shows "resolver_inv (removeKey k st)"
proof (cases "modalForMidi st")
  case None then show ?thesis using assms by (simp add: removeKey_def)
next
  case (Some t)
  let ?cur = "binding_of (bindings st) t"
  have "unique_bindings (obj_put t (?cur\<lparr> keys := filter (\<lambda>x. x \<noteq> k) (keys ?cur) \<rparr>) (bindings st))"
    using assms by (intro unique_shrink) (auto simp: resolver_inv_def)
  from inv_persist[OF assms this] assms Some show ?thesis
    by (simp add: removeKey_def Let_def)
qed

lemma inv_removeMidi:
  assumes "resolver_inv st"
  shows "resolver_inv (removeMidi n st)"
proof (cases "modalForMidi st")
  case None then show ?thesis using assms by (simp add: removeMidi_def)
next
  case (Some t)
  let ?cur = "binding_of (bindings st) t"
  have "unique_bindings (obj_put t (?cur\<lparr> midis := filter (\<lambda>x. x \<noteq> n) (midis ?cur) \<rparr>) (bindings st))"
    using assms by (intro unique_shrink) (auto simp: resolver_inv_def)
  from inv_persist[OF assms this] assms Some show ?thesis
    by (simp add: removeMidi_def Let_def)
qed

lemma inv_removeCc:
  assumes "resolver_inv st"
  shows "resolver_inv (removeCc c st)"
proof (cases "modalForMidi st")
  case None then show ?thesis using assms by (simp add: removeCc_def)
next
  case (Some t)
  let ?cur = "binding_of (bindings st) t"
  have "unique_bindings (obj_put t (?cur\<lparr> ccs := filter (\<lambda>x. x \<noteq> c) (ccs ?cur) \<rparr>) (bindings st))"
    using assms by (intro unique_shrink) (auto simp: resolver_inv_def)
  from inv_persist[OF assms this] assms Some show ?thesis
    by (simp add: removeCc_def Let_def)
qed

lemma inv_resetBindings: "resolver_inv st \<Longrightarrow> resolver_inv (resetBindings st)"
  by (simp add: resetBindings_def persistBindings_def resolver_inv_def unique_empty)

lemma inv_closeModal: "resolver_inv (closeModal st) = resolver_inv st"
  by (simp add: closeModal_def resolver_inv_def)

lemma inv_handlePadEdit: "resolver_inv (handlePadEdit pad st) = resolver_inv st"
  by (simp add: handlePadEdit_def resolver_inv_def)

lemma inv_handle: "resolver_inv st \<Longrightarrow> resolver_inv (handle ev st)"
proof (cases ev)
  case (SelectDevice d) assume "resolver_inv st" with SelectDevice show ?thesis by (simp add: resolver_inv_def)
next
  case AudioEnabled assume "resolver_inv st" with AudioEnabled show ?thesis by (simp add: resolver_inv_def)
qed (simp_all add: inv_handlePadEdit inv_closeModal inv_clickAddKey inv_clickAddMidi inv_clickAddCc
       inv_keyDown inv_midiNoteListener inv_ccListener inv_removeKey inv_removeMidi inv_removeCc
       inv_resetBindings)

lemma inv_midi_effect: "resolver_inv (midi_effect before after) = resolver_inv after"
  by (simp add: midi_effect_def resolver_inv_def)

lemma inv_step: "resolver_inv st \<Longrightarrow> resolver_inv (step ev st)"
  by (simp add: step_def inv_midi_effect inv_handle)

lemma inv_run_events: "resolver_inv st \<Longrightarrow> resolver_inv (run_events evs st)"
  unfolding run_events_def by (induction evs arbitrary: st) (simp_all add: inv_step)

text \<open>
  C1. Start from a state whose table lists no key identifier, note number or controller
  number under two different targets, with no key capture pending. After any sequence
  of events of the component (opening and closing the modal, starting a capture of any
  kind, key presses, note and controller messages, removals, a reset, selecting a
  device, enabling audio) the table still lists none under two different targets.
\<close>

theorem binding_uniqueness:
  assumes "unique_bindings (bindings st)" and "keydownListeners st = []"
  shows "unique_bindings (bindings (run_events evs st))"
proof -
  have "resolver_inv st" using assms by (simp add: resolver_inv_def)
  then have "resolver_inv (run_events evs st)" by (rule inv_run_events)
  then show ?thesis by (simp add: resolver_inv_def)
qed

lemma unique_sample: "unique_bindings sample_table"
  by (simp add: unique_bindings_def sample_table_def disjoint_bindings_def)

theorem binding_uniqueness_witness:
  "unique_bindings (bindings sample_state) \<and> keydownListeners sample_state = []
   \<and> unique_bindings (bindings (run_events sample_events sample_state))"
proof -
  have a: "unique_bindings (bindings sample_state)"
    by (simp add: sample_state_def unique_sample)
  have b: "keydownListeners sample_state = []"
    by (simp add: sample_state_def fresh_def resolver_init_def)
  from binding_uniqueness[OF a b] a b show ?thesis by simp
qed

section \<open>Capturing a default note\<close>

lemma run_events_Cons: "run_events (e # es) st = run_events es (step e st)"
  by (simp add: run_events_def)
lemma run_events_Nil: "run_events [] st = st"
  by (simp add: run_events_def)
lemma run_events_append: "run_events (xs @ ys) st = run_events ys (run_events xs st)"
  by (simp add: run_events_def)

lemma label_of_pad: "label_or_other (PAD_TO_MIDI pad) = PAD_LABELS pad"
  by (cases pad) (simp_all add: label_or_other_def midiToLabel_def drumPads_def)

lemma pad_default: "PAD_TO_MIDI pad \<in> set defaultMidiSet"
  by (cases pad) (simp_all add: defaultMidiSet_def drumPads_def)

lemma commitMidi_own: "commitMidi t t st = st"
  by (simp add: commitMidi_def)

lemma midiOwnerLabel_found:
  "find_owner midis t note tbl = Some q \<Longrightarrow> midiOwnerLabel t note tbl = Some (label_or_other q)"
  by (simp add: midiOwnerLabel_def Let_def truthy_label_def label_or_other_nonempty)

lemma midiOwnerLabel_default:
  "find_owner midis t note tbl = None \<Longrightarrow> note \<in> set defaultMidiSet \<Longrightarrow> note \<noteq> t \<Longrightarrow>
   midiOwnerLabel t note tbl = Some (label_or_other note)"
  by (simp add: midiOwnerLabel_def Let_def truthy_label_def)

lemma midiOwnerLabel_own:
  "find_owner midis t t tbl = None \<Longrightarrow> midiOwnerLabel t t tbl = None"
  by (simp add: midiOwnerLabel_def Let_def truthy_label_def)

text \<open>
  C5, as the code has it. While a note capture listens for target \<open>t\<close>, a note-on
  (velocity above 0) whose note is the default note of some pad leaves the table and the
  store unchanged and ends the capture. If another target already lists the note as an
  extra note, a conflict naming the first such target is reported. Otherwise a conflict
  naming the pad that owns the default is reported when that pad is not the capture
  target, and nothing is reported when it is the capture target.
\<close>

theorem default_note_capture:
  assumes "listenMidiForMidi st = Some t" and "0 < vel"
  shows "bindings (midiNoteListener (PAD_TO_MIDI pad) vel st) = bindings st
     \<and> store (midiNoteListener (PAD_TO_MIDI pad) vel st) = store st
     \<and> listenMidiForMidi (midiNoteListener (PAD_TO_MIDI pad) vel st) = None
     \<and> conflictMidi (midiNoteListener (PAD_TO_MIDI pad) vel st) =
         (case find_owner midis t (PAD_TO_MIDI pad) (bindings st) of
            Some q \<Rightarrow> Some (PAD_TO_MIDI pad, label_or_other q)
          | None \<Rightarrow> if PAD_TO_MIDI pad = t then conflictMidi st
                    else Some (PAD_TO_MIDI pad, PAD_LABELS pad))"
proof -
  let ?n = "PAD_TO_MIDI pad"
  have l: "midiNoteListener ?n vel st = captureMidi t ?n st"
    using assms by (simp add: midiNoteListener_def)
  show ?thesis
  proof (cases "find_owner midis t ?n (bindings st)")
    case (Some q)
    from midiOwnerLabel_found[OF Some] label_or_other_nonempty[of q] Some
    show ?thesis unfolding l by (simp add: captureMidi_def)
  next
    case None
    show ?thesis
    proof (cases "?n = t")
      case True
      with None have "midiOwnerLabel t ?n (bindings st) = None"
        by (simp add: midiOwnerLabel_own)
      with None True show ?thesis unfolding l by (simp add: captureMidi_def commitMidi_own)
    next
      case False
      from midiOwnerLabel_default[OF None pad_default False] label_or_other_nonempty[of ?n] None False
      show ?thesis unfolding l by (simp add: captureMidi_def label_of_pad)
    qed
  qed
qed

theorem default_note_capture_witness:
  "listenMidiForMidi (fresh\<lparr> listenMidiForMidi := Some 42 \<rparr>) = Some 42 \<and> (0::nat) < 100
   \<and> bindings (midiNoteListener (PAD_TO_MIDI Kick) 100 (fresh\<lparr> listenMidiForMidi := Some 42 \<rparr>)) = []
   \<and> conflictMidi (midiNoteListener (PAD_TO_MIDI Kick) 100 (fresh\<lparr> listenMidiForMidi := Some 42 \<rparr>))
       = Some (36, ''Kick'')
   \<and> conflictMidi (midiNoteListener (PAD_TO_MIDI HiHatClosed) 100 (fresh\<lparr> listenMidiForMidi := Some 42 \<rparr>))
       = None"
  using default_note_capture[of "fresh\<lparr> listenMidiForMidi := Some 42 \<rparr>" 42 100 Kick]
        default_note_capture[of "fresh\<lparr> listenMidiForMidi := Some 42 \<rparr>" 42 100 HiHatClosed]
  by (simp add: fresh_def resolver_init_def loadBindings_def find_owner_def)

lemma stored_table_loaded: "bindings (resolver_init stored_snare_kick NoItem) = [(38, \<lparr> keys = [], midis = [36], ccs = [] \<rparr>)]"
  by (simp add: resolver_init_def stored_snare_kick_def loadBindings_def fromEntries_def normalizeBinding_def)

lemma note_capture_armed:
  "run_events [SelectDevice (Some ''in''), TapPadEdit pad, ClickAddMidi] (resolver_init stored_snare_kick NoItem)
     = (resolver_init stored_snare_kick NoItem)
         \<lparr> selectedId := Some ''in'', modalForMidi := Some (PAD_TO_MIDI pad),
           listenMidiForMidi := Some (PAD_TO_MIDI pad) \<rparr>"
  by (simp add: run_events_Cons run_events_Nil step_def midi_effect_def handlePadEdit_def clickAddMidi_def
        resolver_init_def)

text \<open>
  The claim as stated fails when another target lists the default note as an extra note
  (a table the load path accepts, and against which the resolve path guards at line
  138). The store holds the kick's note 36 under the snare; after start-up a note capture
  for the closed hi-hat that receives note 36 reports the snare, not the kick, and a
  note capture for the kick itself reports a conflict instead of ignoring the note.
\<close>

theorem default_note_capture_counterexample:
  "bindings (resolver_init stored_snare_kick NoItem) = [(38, \<lparr> keys = [], midis = [36], ccs = [] \<rparr>)]
   \<and> conflictMidi (run_events (capture_kick_note_for HiHatClosed) (resolver_init stored_snare_kick NoItem))
      = Some (PAD_TO_MIDI Kick, PAD_LABELS Snare)
   \<and> conflictMidi (run_events (capture_kick_note_for HiHatClosed) (resolver_init stored_snare_kick NoItem))
      \<noteq> Some (PAD_TO_MIDI Kick, PAD_LABELS Kick)
   \<and> conflictMidi (run_events (capture_kick_note_for Kick) (resolver_init stored_snare_kick NoItem))
      = Some (PAD_TO_MIDI Kick, PAD_LABELS Snare)"
proof -
  have split: "\<And>pad. capture_kick_note_for pad =
      [SelectDevice (Some ''in''), TapPadEdit pad, ClickAddMidi] @ [MidiNote (PAD_TO_MIDI Kick) 100]"
    by (simp add: capture_kick_note_for_def)
  have n: "\<And>pad. pad = HiHatClosed \<or> pad = Kick \<Longrightarrow>
     conflictMidi (step (MidiNote (PAD_TO_MIDI Kick) 100)
       ((resolver_init stored_snare_kick NoItem)
         \<lparr> selectedId := Some ''in'', modalForMidi := Some (PAD_TO_MIDI pad),
           listenMidiForMidi := Some (PAD_TO_MIDI pad) \<rparr>)) = Some (PAD_TO_MIDI Kick, PAD_LABELS Snare)"
    using stored_table_loaded
    by (auto simp: step_def midi_effect_def midiNoteListener_def
        captureMidi_def midiOwnerLabel_def find_owner_def truthy_label_def Let_def
        label_or_other_def midiToLabel_def drumPads_def)
  show ?thesis
    unfolding split run_events_append note_capture_armed
    using stored_table_loaded n[of HiHatClosed] n[of Kick] by (simp add: run_events_Cons run_events_Nil)
qed

section \<open>The controller edge trigger\<close>

lemma map_filter_append:
  "List.map_filter f (xs @ ys) = List.map_filter f xs @ List.map_filter f ys"
  by (simp add: List.map_filter_def)

lemma triggers_append: "triggers (st\<lparr> fx := fx st @ es \<rparr>) = triggers st @ List.map_filter trigger_of es"
  by (simp add: triggers_def map_filter_append)

lemma triggers_flash: "triggers (flash r st) = triggers st"
  by (simp add: flash_def triggers_def map_filter_append List.map_filter_simps split: option.splits)

lemma triggers_ccDown: "triggers (st\<lparr> ccDown := f \<rparr>) = triggers st"
  by (simp add: triggers_def)

lemma audioReady_flash: "audioReady (flash r st) = audioReady st"
  by (simp add: flash_def split: option.splits)

lemma playCc_triggers:
  assumes "getResolvedIncomingCc (bindings st) cc = Some target"
  shows "triggers (playCc cc v st) =
     triggers st @ (if CC_TRIGGER_THRESHOLD \<le> v \<and> \<not> ccDown st cc \<and> audioReady st
                    then [(target, max 1 (min 127 v))] else [])"
proof -
  let ?st1 = "st\<lparr> ccDown := (ccDown st)(cc := CC_TRIGGER_THRESHOLD \<le> v) \<rparr>"
  show ?thesis
  proof (cases "CC_TRIGGER_THRESHOLD \<le> v \<and> \<not> ccDown st cc")
    case False
    then have "playCc cc v st = ?st1" using assms by (auto simp: playCc_def Let_def)
    with False show ?thesis by (auto simp: triggers_ccDown)
  next
    case True
    show ?thesis
    proof (cases "audioReady st")
      case False
      then have "playCc cc v st = flash target ?st1"
        using assms True by (simp add: playCc_def Let_def audioReady_flash)
      with False show ?thesis by (simp add: triggers_flash triggers_ccDown)
    next
      case ar: True
      then have "playCc cc v st = (flash target ?st1)\<lparr> fx := fx (flash target ?st1) @ [CallTriggerMidi target (max 1 (min 127 v))] \<rparr>"
        using assms True by (simp add: playCc_def Let_def audioReady_flash)
      with ar True show ?thesis
        by (simp add: triggers_append triggers_flash triggers_ccDown List.map_filter_simps)
    qed
  qed
qed

lemma playCc_fields:
  "bindings (playCc cc v st) = bindings st"
  "listenCcForMidi (playCc cc v st) = listenCcForMidi st"
  "audioReady (playCc cc v st) = audioReady st"
  "ccDown (playCc cc v st) = (ccDown st)(cc := CC_TRIGGER_THRESHOLD \<le> v)"
  by (simp_all add: playCc_def Let_def flash_def split: option.splits)

lemma ccListener_normal:
  "listenCcForMidi st = None \<Longrightarrow> ccListener cc v st = playCc cc v (hat_fx cc v st)"
  by (simp add: ccListener_def Let_def hat_fx_def)

lemma hat_fx_fields:
  "bindings (hat_fx cc v st) = bindings st"
  "listenCcForMidi (hat_fx cc v st) = listenCcForMidi st"
  "audioReady (hat_fx cc v st) = audioReady st"
  "ccDown (hat_fx cc v st) = ccDown st"
  "triggers (hat_fx cc v st) = triggers st"
  by (simp_all add: hat_fx_def triggers_append List.map_filter_simps)

lemma ccListener_triggers:
  assumes "listenCcForMidi st = None" "getResolvedIncomingCc (bindings st) cc = Some target"
  shows "triggers (ccListener cc v st) =
     triggers st @ (if CC_TRIGGER_THRESHOLD \<le> v \<and> \<not> ccDown st cc \<and> audioReady st
                    then [(target, max 1 (min 127 v))] else [])"
  using playCc_triggers[of "hat_fx cc v st" cc target v] assms
  by (simp add: ccListener_normal hat_fx_fields)

lemma ccListener_fields:
  assumes "listenCcForMidi st = None"
  shows "bindings (ccListener cc v st) = bindings st"
  "listenCcForMidi (ccListener cc v st) = None"
  "audioReady (ccListener cc v st) = audioReady st"
  "ccDown (ccListener cc v st) cc = (CC_TRIGGER_THRESHOLD \<le> v)"
  using assms by (simp_all add: ccListener_normal playCc_fields hat_fx_fields)

lemma playCc_release:
  "u < CC_TRIGGER_THRESHOLD \<Longrightarrow> triggers (playCc c u s) = triggers s"
  by (simp add: playCc_def Let_def triggers_ccDown split: option.splits)

lemma captureCc_triggers: "triggers (captureCc t c s) = triggers s"
  by (simp add: captureCc_def commitCc_def Let_def persistBindings_def triggers_def split: option.splits)

lemma release_never_fires:
  assumes "v < CC_TRIGGER_THRESHOLD"
  shows "triggers (ccListener cc v st) = triggers st"
proof (cases "listenCcForMidi (hat_fx cc v st)")
  case None
  then show ?thesis
    by (simp add: ccListener_def Let_def playCc_release[OF assms] hat_fx_fields)
next
  case (Some t)
  show ?thesis
  proof (cases "0 < v")
    case True
    with Some show ?thesis
      by (simp add: ccListener_def Let_def captureCc_triggers hat_fx_fields)
  next
    case False
    with Some show ?thesis
      using playCc_release[OF assms, of cc "hat_fx cc v st"]
      by (simp add: ccListener_def Let_def hat_fx_fields)
  qed
qed

lemma feed_cc_Cons: "feed_cc cc (v # vs) st = feed_cc cc vs (ccListener cc v st)"
  by (simp add: feed_cc_def)
lemma feed_cc_Nil: "feed_cc cc [] st = st"
  by (simp add: feed_cc_def)

text \<open>
  C6, as the code has it. Let no controller capture be pending and let the controller
  be bound (the table resolves it to \<open>target\<close>). A controller message forwards a trigger
  for \<open>target\<close> to the engine exactly when its value is at least 64, the controller was
  not down before (its previous value was below 64, or it had none since the listeners
  were installed) and audio has been enabled; the velocity is the value clamped into
  [1,127]. For two messages in a row the second fires exactly when it is at least 64,
  the first was below 64 and audio is enabled. Fed 0, 40, 70, 80, 30, 90 from a state
  where the controller is not down and audio is enabled, exactly two triggers fire, with
  velocities 70 and 90. A value below 64 never fires a trigger, in any state.
\<close>

theorem cc_edge_trigger:
  assumes "listenCcForMidi st = None"
    and "getResolvedIncomingCc (bindings st) cc = Some target"
  shows "triggers (ccListener cc v st) =
           triggers st @ (if 64 \<le> v \<and> \<not> ccDown st cc \<and> audioReady st
                          then [(target, max 1 (min 127 v))] else [])
     \<and> triggers (ccListener cc v (ccListener cc prev st)) =
           triggers (ccListener cc prev st)
             @ (if 64 \<le> v \<and> prev < 64 \<and> audioReady st then [(target, max 1 (min 127 v))] else [])
     \<and> (audioReady st \<and> \<not> ccDown st cc \<longrightarrow>
          triggers (feed_cc cc [0, 40, 70, 80, 30, 90] st) = triggers st @ [(target, 70), (target, 90)])
     \<and> (w < 64 \<longrightarrow> triggers (ccListener cc w st') = triggers st')"
proof -
  note one = ccListener_triggers ccListener_fields
  have a: "triggers (ccListener cc v st) =
           triggers st @ (if 64 \<le> v \<and> \<not> ccDown st cc \<and> audioReady st
                          then [(target, max 1 (min 127 v))] else [])"
    using ccListener_triggers[OF assms] by (simp add: CC_TRIGGER_THRESHOLD_def)
  have step: "\<And>s u. listenCcForMidi s = None \<Longrightarrow> bindings s = bindings st \<Longrightarrow>
      triggers (ccListener cc u s) = triggers s @ (if 64 \<le> u \<and> \<not> ccDown s cc \<and> audioReady s
                          then [(target, max 1 (min 127 u))] else [])
      \<and> listenCcForMidi (ccListener cc u s) = None \<and> bindings (ccListener cc u s) = bindings st
      \<and> audioReady (ccListener cc u s) = audioReady s \<and> ccDown (ccListener cc u s) cc = (64 \<le> u)"
    using assms(2) by (simp add: ccListener_triggers ccListener_fields CC_TRIGGER_THRESHOLD_def)
  have b: "triggers (ccListener cc v (ccListener cc prev st)) =
           triggers (ccListener cc prev st)
             @ (if 64 \<le> v \<and> prev < 64 \<and> audioReady st then [(target, max 1 (min 127 v))] else [])"
    using step[of st prev] step[of "ccListener cc prev st" v] assms(1) by auto
  have c: "audioReady st \<and> \<not> ccDown st cc \<longrightarrow>
          triggers (feed_cc cc [0, 40, 70, 80, 30, 90] st) = triggers st @ [(target, 70), (target, 90)]"
  proof
    assume h: "audioReady st \<and> \<not> ccDown st cc"
    define s1 where "s1 = ccListener cc 0 st"
    define s2 where "s2 = ccListener cc 40 s1"
    define s3 where "s3 = ccListener cc 70 s2"
    define s4 where "s4 = ccListener cc 80 s3"
    define s5 where "s5 = ccListener cc 30 s4"
    define s6 where "s6 = ccListener cc 90 s5"
    have 1: "triggers s1 = triggers st \<and> listenCcForMidi s1 = None \<and> bindings s1 = bindings st
        \<and> audioReady s1 \<and> \<not> ccDown s1 cc"
      unfolding s1_def using step[of st 0] assms(1) h by simp
    have 2: "triggers s2 = triggers st \<and> listenCcForMidi s2 = None \<and> bindings s2 = bindings st
        \<and> audioReady s2 \<and> \<not> ccDown s2 cc"
      unfolding s2_def using step[of s1 40] 1 by simp
    have 3: "triggers s3 = triggers st @ [(target, 70)] \<and> listenCcForMidi s3 = None \<and> bindings s3 = bindings st
        \<and> audioReady s3 \<and> ccDown s3 cc"
      unfolding s3_def using step[of s2 70] 2 by simp
    have 4: "triggers s4 = triggers st @ [(target, 70)] \<and> listenCcForMidi s4 = None \<and> bindings s4 = bindings st
        \<and> audioReady s4 \<and> ccDown s4 cc"
      unfolding s4_def using step[of s3 80] 3 by simp
    have 5: "triggers s5 = triggers st @ [(target, 70)] \<and> listenCcForMidi s5 = None \<and> bindings s5 = bindings st
        \<and> audioReady s5 \<and> \<not> ccDown s5 cc"
      unfolding s5_def using step[of s4 30] 4 by simp
    have 6: "triggers s6 = triggers st @ [(target, 70), (target, 90)]"
      unfolding s6_def using step[of s5 90] 5 by simp
    have "feed_cc cc [0, 40, 70, 80, 30, 90] st = s6"
      by (simp add: feed_cc_def s1_def s2_def s3_def s4_def s5_def s6_def)
    with 6 show "triggers (feed_cc cc [0, 40, 70, 80, 30, 90] st) = triggers st @ [(target, 70), (target, 90)]"
      by simp
  qed
  have d: "w < 64 \<longrightarrow> triggers (ccListener cc w st') = triggers st'"
    using release_never_fires[of w cc st'] by (simp add: CC_TRIGGER_THRESHOLD_def)
  from a b c d show ?thesis by blast
qed

theorem cc_edge_trigger_witness:
  "listenCcForMidi (audio_locked\<lparr> audioReady := True \<rparr>) = None
   \<and> getResolvedIncomingCc (bindings (audio_locked\<lparr> audioReady := True \<rparr>)) 20 = Some 36
   \<and> audioReady (audio_locked\<lparr> audioReady := True \<rparr>) \<and> \<not> ccDown (audio_locked\<lparr> audioReady := True \<rparr>) 20
   \<and> (30::nat) < 64
   \<and> triggers (feed_cc 20 [0, 40, 70, 80, 30, 90] (audio_locked\<lparr> audioReady := True \<rparr>)) = [(36, 70), (36, 90)]
   \<and> triggers (ccListener 20 30 (audio_locked\<lparr> audioReady := True \<rparr>)) = []"
proof -
  let ?s = "audio_locked\<lparr> audioReady := True \<rparr>"
  have a: "listenCcForMidi ?s = None"
    by (simp add: audio_locked_def fresh_def resolver_init_def)
  have b: "getResolvedIncomingCc (bindings ?s) 20 = Some 36"
    by (simp add: audio_locked_def getResolvedIncomingCc_def)
  have c: "audioReady ?s" "\<not> ccDown ?s 20" "triggers ?s = []"
    by (simp_all add: audio_locked_def fresh_def resolver_init_def triggers_def List.map_filter_simps)
  from cc_edge_trigger[OF a b, of 70 0 30 ?s] a b c show ?thesis by simp
qed

lemma cc_bound_state:
  "run_events [SelectDevice (Some ''in''), TapPadEdit Kick, ClickAddCc, MidiCc 20 100, CloseModal] fresh
    = fresh\<lparr> selectedId := Some ''in'',
             bindings := [(36, \<lparr> keys = [], midis = [], ccs = [20] \<rparr>)],
             store := Json (to_stored [(36, \<lparr> keys = [], midis = [], ccs = [20] \<rparr>)]) \<rparr>"
  by (simp add: run_events_Cons run_events_Nil step_def midi_effect_def handlePadEdit_def
        clickAddCc_def ccListener_def hat_fx_def FootController_def captureCc_def commitCc_def
        find_owner_def binding_of_def normalizeBinding_def Let_def persistBindings_def closeModal_def
        fresh_def resolver_init_def loadBindings_def)


lemma feed_without_audio:
  "triggers (run_events (map (MidiCc 20) vals)
      (fresh\<lparr> selectedId := Some ''in'',
             bindings := [(36, \<lparr> keys = [], midis = [], ccs = [20] \<rparr>)],
             store := Json (to_stored [(36, \<lparr> keys = [], midis = [], ccs = [20] \<rparr>)]) \<rparr>)) = []"
proof -
  have step_keeps: "\<And>v s. selectedId s \<noteq> None \<Longrightarrow> listenCcForMidi s = None \<Longrightarrow> \<not> audioReady s \<Longrightarrow> triggers s = [] \<Longrightarrow>
      selectedId (step (MidiCc 20 v) s) \<noteq> None \<and> listenCcForMidi (step (MidiCc 20 v) s) = None
      \<and> \<not> audioReady (step (MidiCc 20 v) s) \<and> triggers (step (MidiCc 20 v) s) = []"
    by (auto simp: step_def midi_effect_def ccListener_def hat_fx_def FootController_def playCc_def Let_def
          flash_def triggers_def map_filter_append List.map_filter_simps split: option.splits)
  have gen: "\<And>s. selectedId s \<noteq> None \<Longrightarrow> listenCcForMidi s = None \<Longrightarrow> \<not> audioReady s \<Longrightarrow> triggers s = [] \<Longrightarrow>
      triggers (run_events (map (MidiCc 20) vals) s) = []"
  proof (induction vals)
    case Nil then show ?case by (simp add: run_events_Nil)
  next
    case (Cons v vals)
    from step_keeps[OF Cons.prems, of v] Cons.IH[of "step (MidiCc 20 v) s"]
    show ?case by (simp add: run_events_Cons)
  qed
  show ?thesis
    by (rule gen) (simp_all add: fresh_def resolver_init_def triggers_def List.map_filter_simps)
qed

text \<open>
  The claim as stated fails while audio has not been enabled. From the initial state a
  device is selected and controller 20 is bound to the kick by a capture; no capture is
  pending afterwards. The value then goes from 0 to 70 and no trigger is forwarded; the
  whole sequence of the claim forwards none.
\<close>

theorem cc_edge_trigger_counterexample:
  "getResolvedIncomingCc (bindings (run_events (bind_cc_then_feed []) fresh)) 20 = Some 36
   \<and> listenCcForMidi (run_events (bind_cc_then_feed []) fresh) = None
   \<and> triggers (run_events (bind_cc_then_feed [0, 70]) fresh) = []
   \<and> triggers (run_events (bind_cc_then_feed [0, 40, 70, 80, 30, 90]) fresh) = []"
  unfolding bind_cc_then_feed_def run_events_append cc_bound_state feed_without_audio
  by (simp add: run_events_Nil getResolvedIncomingCc_def fresh_def resolver_init_def)

section \<open>Captures of different kinds\<close>

lemma armed_state:
  "run_events [SelectDevice (Some ''in''), TapPadEdit Kick, ClickAddKey, ClickAddMidi] fresh
    = fresh\<lparr> selectedId := Some ''in'', modalForMidi := Some 36, listenMidiForMidi := Some 36,
             keydownListeners := [(36, [])] \<rparr>"
  by (simp add: run_events_Cons run_events_Nil step_def midi_effect_def handlePadEdit_def
        clickAddKey_def clickAddMidi_def fresh_def resolver_init_def loadBindings_def)

lemma flags_once: "at_most_one_listening st \<Longrightarrow> at_most_one_listening (once closure k st)"
  by (auto simp: once_def Let_def at_most_one_listening_def persistBindings_def)

lemma flags_fold_once:
  "at_most_one_listening st \<Longrightarrow> at_most_one_listening (fold (\<lambda>closure. once closure k) cs st)"
  by (induction cs arbitrary: st) (simp_all add: flags_once)

lemma flags_keyDown: "at_most_one_listening st \<Longrightarrow> at_most_one_listening (keyDown k st)"
  unfolding keyDown_def by (rule flags_fold_once) (simp add: at_most_one_listening_def)

lemma flags_captureMidi:
  "at_most_one_listening st \<Longrightarrow> at_most_one_listening (captureMidi t note st)"
  by (auto simp: captureMidi_def commitMidi_def Let_def at_most_one_listening_def persistBindings_def
        split: option.splits)

lemma flags_playNote: "at_most_one_listening (playNote note vel st) = at_most_one_listening st"
  by (simp add: playNote_def Let_def flash_def at_most_one_listening_def split: option.splits)

lemma flags_midiNoteListener:
  "at_most_one_listening st \<Longrightarrow> at_most_one_listening (midiNoteListener note vel st)"
  by (simp add: midiNoteListener_def flags_captureMidi flags_playNote split: option.splits)

lemma flags_captureCc:
  "at_most_one_listening st \<Longrightarrow> at_most_one_listening (captureCc t cc st)"
  by (auto simp: captureCc_def commitCc_def Let_def at_most_one_listening_def persistBindings_def
        split: option.splits)

lemma flags_playCc: "at_most_one_listening (playCc cc val st) = at_most_one_listening st"
  by (simp add: playCc_def Let_def flash_def at_most_one_listening_def split: option.splits)

lemma flags_hat_fx: "at_most_one_listening (hat_fx cc val st) = at_most_one_listening st"
  by (simp add: hat_fx_def at_most_one_listening_def)

lemma flags_ccListener:
  "at_most_one_listening st \<Longrightarrow> at_most_one_listening (ccListener cc val st)"
  by (simp add: ccListener_def Let_def flags_captureCc flags_playCc flags_hat_fx split: option.splits)

lemma flags_handle: "at_most_one_listening st \<Longrightarrow> at_most_one_listening (handle ev st)"
proof (cases ev)
  case (KeyDown k) assume "at_most_one_listening st"
  with KeyDown show ?thesis by (simp add: flags_keyDown)
next
  case (MidiNote n v) assume "at_most_one_listening st"
  with MidiNote show ?thesis by (simp add: flags_midiNoteListener)
next
  case (MidiCc c v) assume "at_most_one_listening st"
  with MidiCc show ?thesis by (simp add: flags_ccListener)
qed (auto simp: at_most_one_listening_def handlePadEdit_def closeModal_def clickAddKey_def
       clickAddMidi_def clickAddCc_def removeKey_def removeMidi_def removeCc_def resetBindings_def
       persistBindings_def Let_def split: option.splits)

lemma flags_step: "at_most_one_listening st \<Longrightarrow> at_most_one_listening (step ev st)"
  using flags_handle[of st ev]
  by (auto simp: step_def midi_effect_def at_most_one_listening_def)

text \<open>
  What does hold: the three capture flags are never set two at a time, and a note or a
  controller capture whose flag was cleared binds nothing, since the two MIDI handlers
  test their flag.
\<close>

lemma listen_flags_exclusive:
  "at_most_one_listening st \<Longrightarrow> at_most_one_listening (run_events evs st)"
  unfolding run_events_def by (induction evs arbitrary: st) (simp_all add: flags_step)

lemma cancelled_note_capture_binds_nothing:
  "listenMidiForMidi st = None \<Longrightarrow> bindings (midiNoteListener note vel st) = bindings st"
  by (simp add: midiNoteListener_def playNote_def Let_def flash_def split: option.splits)

lemma cancelled_cc_capture_binds_nothing:
  "listenCcForMidi st = None \<Longrightarrow> bindings (ccListener cc val st) = bindings st"
  by (simp add: ccListener_def hat_fx_def playCc_def Let_def flash_def split: option.splits)

text \<open>
  C10, evaluated on the code. With a device selected and the kick's modal open, clicking
  ``Add key binding'' and then ``Add MIDI binding'' clears \<open>listenKeyForMidi\<close> and sets
  \<open>listenMidiForMidi\<close>, but the \<open>keydown\<close> listener registered by the first click stays
  registered: the next key press binds the key to the kick while the note capture is
  still listening. The key capture was not cancelled by starting the note capture.
\<close>

theorem key_capture_survives_midi_capture:
  "listenKeyForMidi (run_events [SelectDevice (Some ''in''), TapPadEdit Kick, ClickAddKey, ClickAddMidi] fresh) = None
   \<and> listenMidiForMidi (run_events [SelectDevice (Some ''in''), TapPadEdit Kick, ClickAddKey, ClickAddMidi] fresh) = Some 36
   \<and> bindings (run_events [SelectDevice (Some ''in''), TapPadEdit Kick, ClickAddKey, ClickAddMidi] fresh) = []
   \<and> listenMidiForMidi (run_events [SelectDevice (Some ''in''), TapPadEdit Kick, ClickAddKey, ClickAddMidi, KeyDown ''a''] fresh) = Some 36
   \<and> bindings (run_events [SelectDevice (Some ''in''), TapPadEdit Kick, ClickAddKey, ClickAddMidi, KeyDown ''a''] fresh)
        = [(36, \<lparr> keys = [''a''], midis = [], ccs = [] \<rparr>)]"
proof -
  have split: "[SelectDevice (Some ''in''), TapPadEdit Kick, ClickAddKey, ClickAddMidi, KeyDown ''a'']
     = [SelectDevice (Some ''in''), TapPadEdit Kick, ClickAddKey, ClickAddMidi] @ [KeyDown ''a'']" by simp
  have k: "step (KeyDown ''a'') (fresh\<lparr> selectedId := Some ''in'', modalForMidi := Some 36, listenMidiForMidi := Some 36,
             keydownListeners := [(36, [])] \<rparr>)
     = fresh\<lparr> selectedId := Some ''in'', modalForMidi := Some 36, listenMidiForMidi := Some 36,
             keydownListeners := [], bindings := [(36, \<lparr> keys = [''a''], midis = [], ccs = [] \<rparr>)],
             store := Json (to_stored [(36, \<lparr> keys = [''a''], midis = [], ccs = [] \<rparr>)]) \<rparr>"
    by (simp add: step_def midi_effect_def keyDown_def once_def Let_def binding_of_def normalizeBinding_def
         persistBindings_def fresh_def resolver_init_def loadBindings_def)
  show ?thesis
    unfolding split run_events_append armed_state
    by (simp add: run_events_Cons run_events_Nil k) (simp add: fresh_def resolver_init_def loadBindings_def)
qed

end
